theory Spec2Isabelle
  imports Main "HOL-Library.Word"
begin

unbundle bit_operations_syntax

section \<open>TI/LMI SYSV disk tool (unixtool.c): data model\<close>

text \<open>
  The tool reads a band image through \<^verbatim>\<open>lseek\<close>/\<^verbatim>\<open>read\<close> on one file descriptor.
  The image is a flat list of bytes.  C \<^verbatim>\<open>int\<close> is a 32-bit two's complement word
  (products wrap around, \<open>sint\<close> reads the value), \<^verbatim>\<open>off_t\<close> and \<^verbatim>\<open>ssize_t\<close>
  are mathematical integers (64-bit values never overflow here), and the host is
  little-endian: a \<^verbatim>\<open>uint16_t\<close>/\<^verbatim>\<open>uint32_t\<close> overlaid on raw bytes is loaded
  low byte first, which is why the tool swaps every on-disk word.
\<close>

type_synonym byte = "8 word"
type_synonym u16 = "16 word"
type_synonym u32 = "32 word"
type_synonym s32 = "32 word"

text \<open>
  The environment of one run: the bytes of the band image behind \<^verbatim>\<open>disk_fd\<close>, the
  file offsets at which \<^verbatim>\<open>read(2)\<close> reports an error, the offsets of the target
  file at which \<^verbatim>\<open>write(2)\<close> reports an error, and the indeterminate bytes an
  automatic (uninitialised) buffer holds before it is first written.
\<close>

record env =
  image :: "byte list"
  read_error :: "int \<Rightarrow> bool"
  write_error :: "nat \<Rightarrow> bool"
  junk :: "nat \<Rightarrow> byte"

definition auto_buf :: "env \<Rightarrow> nat \<Rightarrow> byte list" where
  "auto_buf e n = map (junk e) [0..<n]"

datatype error = IOError | FurtherIndirection

text \<open>Host (little-endian) loads of a halfword and a word from a byte buffer.\<close>

definition le16 :: "byte \<Rightarrow> byte \<Rightarrow> u16" where
  "le16 b0 b1 = ucast b0 OR push_bit 8 (ucast b1)"

definition le32 :: "byte \<Rightarrow> byte \<Rightarrow> byte \<Rightarrow> byte \<Rightarrow> u32" where
  "le32 b0 b1 b2 b3 =
     ucast b0 OR push_bit 8 (ucast b1) OR push_bit 16 (ucast b2) OR push_bit 24 (ucast b3)"

definition hword_at :: "byte list \<Rightarrow> nat \<Rightarrow> u16" where
  "hword_at buf off = le16 (buf ! off) (buf ! (off + 1))"

definition word_at :: "byte list \<Rightarrow> nat \<Rightarrow> u32" where
  "word_at buf off = le32 (buf ! off) (buf ! (off + 1)) (buf ! (off + 2)) (buf ! (off + 3))"

text \<open>The value of big-endian on-disk bytes, most significant byte first.\<close>

definition be16 :: "byte \<Rightarrow> byte \<Rightarrow> u16" where
  "be16 b0 b1 = push_bit 8 (ucast b0) OR ucast b1"

definition be24 :: "byte \<Rightarrow> byte \<Rightarrow> byte \<Rightarrow> u32" where
  "be24 b0 b1 b2 = push_bit 16 (ucast b0) OR push_bit 8 (ucast b1) OR ucast b2"

definition be32 :: "byte \<Rightarrow> byte \<Rightarrow> byte \<Rightarrow> byte \<Rightarrow> u32" where
  "be32 b0 b1 b2 b3 =
     push_bit 24 (ucast b0) OR push_bit 16 (ucast b1) OR push_bit 8 (ucast b2) OR ucast b3"

subsection \<open>Byte-order layer\<close>

definition swap_word :: "u32 \<Rightarrow> u32" where
  "swap_word w =
     drop_bit 24 (w AND 0xFF000000) OR drop_bit 8 (w AND 0x00FF0000)
       OR push_bit 8 (w AND 0x0000FF00) OR push_bit 24 (w AND 0x000000FF)"

text \<open>\<^verbatim>\<open>swap_hword\<close> computes in a 32-bit \<^verbatim>\<open>out\<close> and returns it cut to 16 bits.\<close>

definition swap_hword :: "u16 \<Rightarrow> u16" where
  "swap_hword h =
     ucast (push_bit 8 ((ucast h :: u32) AND 0x00FF) OR drop_bit 8 ((ucast h :: u32) AND 0xFF00))"

subsection \<open>System calls on the image\<close>

text \<open>
  \<^verbatim>\<open>lseek(fd, off, SEEK_SET)\<close> on a regular file: the new offset, or \<open>-1\<close> (EINVAL)
  for a negative one.  \<^verbatim>\<open>read(fd, buf, n)\<close> at position \<open>pos\<close>: \<open>None\<close> for an error,
  otherwise the bytes delivered, fewer than \<open>n\<close> (possibly none) where the file ends.
\<close>

definition lseek_set :: "int \<Rightarrow> int" where
  "lseek_set off = (if off < 0 then - 1 else off)"

definition sys_read :: "env \<Rightarrow> int \<Rightarrow> nat \<Rightarrow> byte list option" where
  "sys_read e pos n =
     (if read_error e pos then None else Some (take n (drop (nat pos) (image e))))"

text \<open>Bytes delivered by \<^verbatim>\<open>read\<close> overwrite the front of the buffer; the rest stays.\<close>

definition fill :: "byte list \<Rightarrow> byte list \<Rightarrow> byte list" where
  "fill data buf = data @ drop (length data) buf"

subsection \<open>Inodes\<close>

record Inode =
  mode :: u16
  type :: u16
  nlink :: u16
  uid :: u16
  gid :: u16
  size_f :: u32
  addr :: "u32 list"
  atime :: "64 word"
  mtime :: "64 word"
  ctime :: "64 word"

definition INODE_FT_FIFO :: u16 where "INODE_FT_FIFO = 1"
definition INODE_FT_CHAR :: u16 where "INODE_FT_CHAR = 2"
definition INODE_FT_DIR :: u16 where "INODE_FT_DIR = 4"
definition INODE_FT_BLK :: u16 where "INODE_FT_BLK = 6"
definition INODE_FT_FILE :: u16 where "INODE_FT_FILE = 8"

text \<open>
  The packed on-disk record \<^verbatim>\<open>InodeODR\<close>: mode at byte 0, nlink 2, uid 4, gid 6,
  size 8, the address bytes 12..51, atime 52, mtime 56, ctime 60.  \<^verbatim>\<open>time_t\<close> is
  64 bits wide, so the swapped 32-bit stamps are zero-extended.
\<close>

definition raw_addr :: "byte list \<Rightarrow> nat \<Rightarrow> byte" where
  "raw_addr raw k = raw ! (12 + k)"

definition decode_addr :: "byte list \<Rightarrow> nat \<Rightarrow> u32" where
  "decode_addr raw x =
     push_bit 16 (ucast (raw_addr raw (x * 3))) OR push_bit 8 (ucast (raw_addr raw (x * 3 + 1)))
       OR ucast (raw_addr raw (x * 3 + 2))"

definition decode_inode :: "byte list \<Rightarrow> Inode" where
  "decode_inode raw =
     \<lparr> mode = drop_bit 8 (hword_at raw 0 AND 0xFF00) OR push_bit 8 (hword_at raw 0 AND 0x000F),
       type = drop_bit 4 (hword_at raw 0 AND 0x00F0),
       nlink = swap_hword (hword_at raw 2),
       uid = swap_hword (hword_at raw 4),
       gid = swap_hword (hword_at raw 6),
       size_f = swap_word (word_at raw 8),
       addr = map (decode_addr raw) [0..<13],
       atime = ucast (swap_word (word_at raw 52)),
       mtime = ucast (swap_word (word_at raw 56)),
       ctime = ucast (swap_word (word_at raw 60)) \<rparr>"

definition read_inode :: "env \<Rightarrow> s32 \<Rightarrow> error + Inode" where
  "read_inode e number =
     (let inode_disk_offset = 0x7C0 + sint (number * 0x40);
          seek_res = lseek_set inode_disk_offset
      in if seek_res < 0 then Inl IOError
         else case sys_read e seek_res 0x40 of
                None \<Rightarrow> Inl IOError
              | Some data \<Rightarrow> Inr (decode_inode (fill data (auto_buf e 0x40))))"

subsection \<open>Block device and block resolver\<close>

text \<open>
  \<^verbatim>\<open>disk_block_read\<close> returns \<^verbatim>\<open>io_res\<close>, the number of bytes \<^verbatim>\<open>read\<close> delivered,
  or \<open>-1\<close>; here \<open>Inr\<close> of the count or \<open>Inl\<close> of the error, with the buffer after
  the call.
\<close>

definition disk_block_read :: "env \<Rightarrow> s32 \<Rightarrow> byte list \<Rightarrow> (error + nat) \<times> byte list" where
  "disk_block_read e adr buf =
     (let seek_res = lseek_set (sint (adr * 0x400))
      in if seek_res < 0 then (Inl IOError, buf)
         else case sys_read e seek_res 1024 of
                None \<Rightarrow> (Inl IOError, buf)
              | Some data \<Rightarrow> (Inr (length data), fill data buf))"

text \<open>
  \<^verbatim>\<open>inode_block_read\<close>: the result, the caller's buffer afterwards, and the block
  numbers handed to \<^verbatim>\<open>disk_block_read\<close>, in call order.  The logical index is
  a natural number: the callers count it up from 0.
\<close>

definition inode_block_read ::
  "env \<Rightarrow> nat \<Rightarrow> Inode \<Rightarrow> byte list \<Rightarrow> (error + nat) \<times> byte list \<times> s32 list" where
  "inode_block_read e adr inode buf =
     (if adr < 10 then
        (let block = addr inode ! adr
         in if 0 < sint block
            then (case disk_block_read e block buf of (rv, buf') \<Rightarrow> (rv, buf', [block]))
            else (Inr 0, buf, []))
      else if adr < 266 then
        (let indirect_offset = adr - 10
         in case disk_block_read e (addr inode ! 10) (auto_buf e 1024) of
              (Inl err, indirect_block) \<Rightarrow> (Inl err, buf, [addr inode ! 10])
            | (Inr n, indirect_block) \<Rightarrow>
                (let block = swap_word (word_at indirect_block (4 * indirect_offset))
                 in case disk_block_read e block buf of
                      (rv, buf') \<Rightarrow> (rv, buf', [addr inode ! 10, block])))
      else if adr < 65802 then
        (let first_indirect_offset = (adr - 266) div 256;
             second_indirect_offset = (adr - 266) - first_indirect_offset * 256
         in case disk_block_read e (addr inode ! 11) (auto_buf e 1024) of
              (Inl err, first_indirect_block) \<Rightarrow> (Inl err, buf, [addr inode ! 11])
            | (Inr n, first_indirect_block) \<Rightarrow>
                (let second = swap_word (word_at first_indirect_block (4 * first_indirect_offset))
                 in case disk_block_read e second (auto_buf e 1024) of
                      (Inl err, second_indirect_block) \<Rightarrow>
                        (Inl err, buf, [addr inode ! 11, second])
                    | (Inr m, second_indirect_block) \<Rightarrow>
                        (let block =
                           swap_word (word_at second_indirect_block (4 * second_indirect_offset))
                         in case disk_block_read e block buf of
                              (rv, buf') \<Rightarrow> (rv, buf', [addr inode ! 11, second, block]))))
      else (Inl FurtherIndirection, buf, []))"


lemma inode_block_read_Inr_range:
  "(Inr n, r) = inode_block_read e adr inode buf \<Longrightarrow> adr < 65802"
  by (auto simp: inode_block_read_def split: if_splits)

subsection \<open>Strings and directory entries\<close>

text \<open>
  A C string ends at its first NUL.  \<^verbatim>\<open>strncmp(a, b, n) == 0\<close> holds when the two
  strings agree up to their first NUL within the first \<open>n\<close> bytes.  Paths and
  arguments come from \<^verbatim>\<open>argv\<close> and hold no NUL byte.
\<close>

definition c_str :: "nat \<Rightarrow> byte list \<Rightarrow> byte list" where
  "c_str n bs = takeWhile (\<lambda>b. b \<noteq> 0) (take n bs)"

definition strncmp_eq :: "byte list \<Rightarrow> byte list \<Rightarrow> nat \<Rightarrow> bool" where
  "strncmp_eq a b n = (c_str n a = c_str n b)"

definition bytes_of :: "string \<Rightarrow> byte list" where
  "bytes_of s = map of_char s"

text \<open>
  \<^verbatim>\<open>strtok(path, "/")\<close> and its continuation calls: the non-empty runs of
  characters between slashes, in order.  The first argument collects the token
  being read.
\<close>

fun split_path :: "string \<Rightarrow> string \<Rightarrow> string list" where
  "split_path cur [] = (if cur = [] then [] else [cur])"
| "split_path cur (c # cs) =
     (if c = CHR ''/'' then (if cur = [] then split_path [] cs else cur # split_path [] cs)
      else split_path (cur @ [c]) cs)"

definition strtok_all :: "string \<Rightarrow> string list" where
  "strtok_all path = split_path [] path"

text \<open>
  \<^verbatim>\<open>Dirent\<close>, 16 bytes: the inode number as the host loads it, and 14 name bytes.
  \<open>entry_str\<close> is what \<^verbatim>\<open>printf("%s", dir_entry->name)\<close> prints: the bytes from the
  name field up to the next NUL in the buffer.
\<close>

definition entry_inode :: "byte list \<Rightarrow> nat \<Rightarrow> u16" where
  "entry_inode dir_buffer x = hword_at dir_buffer (16 * x)"

definition entry_name :: "byte list \<Rightarrow> nat \<Rightarrow> byte list" where
  "entry_name dir_buffer x = take 14 (drop (16 * x + 2) dir_buffer)"

definition entry_str :: "byte list \<Rightarrow> nat \<Rightarrow> byte list" where
  "entry_str dir_buffer x = takeWhile (\<lambda>b. b \<noteq> 0) (drop (16 * x + 2) dir_buffer)"

subsection \<open>Outcomes\<close>

text \<open>
  One constructor per kind of \<^verbatim>\<open>return\<close> in \<^verbatim>\<open>unix_ls\<close>, \<^verbatim>\<open>unix_read\<close> and \<^verbatim>\<open>main\<close>,
  named after the message printed there; \<open>retcode\<close> is the value returned.
\<close>

datatype outcome =
    Done
  | EndOfData
  | InvalidPath
  | Failed error
  | NameTooLong
  | NotFound
  | FoundFileEarly
  | NoFile
  | UnexpectedEOF
  | Usage
  | NoImageName
  | BadMagic
  | MissingArgument
  | UnknownCommand

fun retcode :: "outcome \<Rightarrow> int" where
  "retcode Done = 0"
| "retcode EndOfData = 0"
| "retcode InvalidPath = - 1"
| "retcode (Failed err) = - 1"
| "retcode NameTooLong = 0"
| "retcode NotFound = - 1"
| "retcode FoundFileEarly = 0"
| "retcode NoFile = 0"
| "retcode UnexpectedEOF = - 1"
| "retcode Usage = 0"
| "retcode NoImageName = - 1"
| "retcode BadMagic = - 1"
| "retcode MissingArgument = - 1"
| "retcode UnknownCommand = - 1"

datatype 'a scan = Return outcome | Matched 'a | Ended nat

subsection \<open>Listing: \<^verbatim>\<open>unix_ls\<close>\<close>

text \<open>
  The entry loop of the path walk, \<^verbatim>\<open>while (dir_entry->inode != 0 && x < 64)\<close>.
  The C tests the inode number first and at \<open>x = 64\<close> reads two bytes past the
  buffer; the loop ends there whatever they hold, so the model tests \<open>x < 64\<close>
  first.  \<open>Matched (Some (inode, number))\<close>: the name matched a directory, which
  becomes the current one; \<open>Matched None\<close>: it matched something else.
\<close>

function ls_scan :: "env \<Rightarrow> string \<Rightarrow> byte list \<Rightarrow> nat \<Rightarrow> (Inode \<times> u16) option scan" where
  "ls_scan e pathpart dir_buffer x =
     (if x < 64 \<and> entry_inode dir_buffer x \<noteq> 0 then
        if length pathpart > 14 then Return NameTooLong
        else if strncmp_eq (bytes_of pathpart) (entry_name dir_buffer x) 14 then
          (case read_inode e (ucast (swap_hword (entry_inode dir_buffer x))) of
             Inl err \<Rightarrow> Return (Failed err)
           | Inr next_dir_inode \<Rightarrow>
               if type next_dir_inode = INODE_FT_DIR then
                 (let dir_inode_number = swap_hword (entry_inode dir_buffer x)
                  in case read_inode e (ucast dir_inode_number) of
                       Inl err \<Rightarrow> Return (Failed err)
                     | Inr dir_inode \<Rightarrow> Matched (Some (dir_inode, dir_inode_number)))
               else Matched None)
        else ls_scan e pathpart dir_buffer (x + 1)
      else Ended x)"
  by pat_completeness auto
termination
  by (relation "measure (\<lambda>(e, pathpart, dir_buffer, x). 64 - x)") auto

declare ls_scan.simps [simp del]

text \<open>
  The block loop \<^verbatim>\<open>while (!done)\<close> for one path component: the current directory
  inode, its block index, the directory buffer and \<^verbatim>\<open>dir_inode_number\<close> afterwards.
\<close>

function ls_lookup ::
  "env \<Rightarrow> string \<Rightarrow> Inode \<Rightarrow> nat \<Rightarrow> byte list \<Rightarrow> outcome + (Inode \<times> nat \<times> byte list \<times> u16)" where
  "ls_lookup e pathpart dir_inode dirblock dir_buffer =
     (case inode_block_read e dirblock dir_inode dir_buffer of
        (Inl err, buf, trace) \<Rightarrow> Inl (Failed err)
      | (Inr rv, buf, trace) \<Rightarrow>
          if rv = 0 then Inl EndOfData
          else (case ls_scan e pathpart buf 0 of
                  Return r \<Rightarrow> Inl r
                | Matched None \<Rightarrow> Inr (dir_inode, dirblock, buf, 0)
                | Matched (Some (sub_inode, number)) \<Rightarrow> Inr (sub_inode, 0, buf, number)
                | Ended x \<Rightarrow>
                    if x < 64 then Inr (dir_inode, dirblock, buf, 0)
                    else ls_lookup e pathpart dir_inode (dirblock + 1) buf))"
  by pat_completeness auto
termination
  by (relation "measure (\<lambda>(e, pathpart, dir_inode, dirblock, dir_buffer). 65802 - dirblock)")
     (auto dest: inode_block_read_Inr_range)

declare ls_lookup.simps [simp del]

text \<open>The walk over the path components, \<^verbatim>\<open>while (pathpart != NULL)\<close>.\<close>

fun ls_walk ::
  "env \<Rightarrow> string list \<Rightarrow> Inode \<Rightarrow> nat \<Rightarrow> byte list \<Rightarrow> outcome + (Inode \<times> nat \<times> byte list)" where
  "ls_walk e [] dir_inode dirblock dir_buffer = Inr (dir_inode, dirblock, dir_buffer)"
| "ls_walk e (pathpart # rest) dir_inode dirblock dir_buffer =
     (case ls_lookup e pathpart dir_inode dirblock dir_buffer of
        Inl r \<Rightarrow> Inl r
      | Inr (dir_inode', dirblock', dir_buffer', dir_inode_number) \<Rightarrow>
          if dir_inode_number = 0 then Inl NotFound
          else ls_walk e rest dir_inode' dirblock' dir_buffer')"

text \<open>
  One printed line: the permission string, link count, owner, group, size, the
  modification stamp (\<^verbatim>\<open>localtime\<close> and \<^verbatim>\<open>strftime\<close> succeed on every 32-bit stamp
  and only format it) and the name.  The masks are the octal 0400, 0200, 0100,
  0040, 0020, 0010, 0004, 0002 and 0001.  The ten characters of \<^verbatim>\<open>permbuf\<close> are
  what is kept of the permission column; the header line with the path and the
  trace lines of the walk are not part of the result.
\<close>

record ls_line =
  permbuf :: string
  l_nlink :: u16
  l_uid :: u16
  l_gid :: u16
  l_size :: u32
  l_mtime :: "64 word"
  l_name :: "byte list"

definition perm_string :: "Inode \<Rightarrow> string" where
  "perm_string file_inode =
     [ if type file_inode = INODE_FT_DIR then CHR ''d''
       else if type file_inode = INODE_FT_CHAR then CHR ''c''
       else if type file_inode = INODE_FT_BLK then CHR ''b''
       else if type file_inode = INODE_FT_FIFO then CHR ''p'' else CHR ''-'',
       if mode file_inode AND 256 \<noteq> 0 then CHR ''r'' else CHR ''-'',
       if mode file_inode AND 128 \<noteq> 0 then CHR ''w'' else CHR ''-'',
       if mode file_inode AND 64 \<noteq> 0 then CHR ''x'' else CHR ''-'',
       if mode file_inode AND 32 \<noteq> 0 then CHR ''r'' else CHR ''-'',
       if mode file_inode AND 16 \<noteq> 0 then CHR ''w'' else CHR ''-'',
       if mode file_inode AND 8 \<noteq> 0 then CHR ''x'' else CHR ''-'',
       if mode file_inode AND 4 \<noteq> 0 then CHR ''r'' else CHR ''-'',
       if mode file_inode AND 2 \<noteq> 0 then CHR ''w'' else CHR ''-'',
       if mode file_inode AND 1 \<noteq> 0 then CHR ''x'' else CHR ''-'' ]"

definition print_line :: "Inode \<Rightarrow> byte list \<Rightarrow> ls_line" where
  "print_line file_inode name =
     \<lparr> permbuf = perm_string file_inode, l_nlink = nlink file_inode, l_uid = uid file_inode,
       l_gid = gid file_inode, l_size = size_f file_inode, l_mtime = mtime file_inode,
       l_name = name \<rparr>"

text \<open>The entry loop of the listing: an early return if any, \<open>x\<close> at the end, the lines.\<close>

function ls_entries ::
  "env \<Rightarrow> byte list \<Rightarrow> nat \<Rightarrow> ls_line list \<Rightarrow> outcome option \<times> nat \<times> ls_line list" where
  "ls_entries e dir_buffer x out =
     (if x < 64 \<and> entry_inode dir_buffer x \<noteq> 0 then
        (case read_inode e (ucast (swap_hword (entry_inode dir_buffer x))) of
           Inl err \<Rightarrow> (Some (Failed err), x, out)
         | Inr file_inode \<Rightarrow>
             ls_entries e dir_buffer (x + 1)
               (out @ [print_line file_inode (entry_str dir_buffer x)]))
      else (None, x, out))"
  by pat_completeness auto
termination
  by (relation "measure (\<lambda>(e, dir_buffer, x, out). 64 - x)") auto

declare ls_entries.simps [simp del]

function ls_print ::
  "env \<Rightarrow> Inode \<Rightarrow> nat \<Rightarrow> byte list \<Rightarrow> ls_line list \<Rightarrow> outcome \<times> ls_line list" where
  "ls_print e dir_inode dirblock dir_buffer out =
     (case inode_block_read e dirblock dir_inode dir_buffer of
        (Inl err, buf, trace) \<Rightarrow> (Failed err, out)
      | (Inr rv, buf, trace) \<Rightarrow>
          if rv = 0 then (EndOfData, out)
          else (case ls_entries e buf 0 out of
                  (Some r, x, out') \<Rightarrow> (r, out')
                | (None, x, out') \<Rightarrow>
                    if x < 64 then (Done, out')
                    else ls_print e dir_inode (dirblock + 1) buf out'))"
  by pat_completeness auto
termination
  by (relation "measure (\<lambda>(e, dir_inode, dirblock, dir_buffer, out). 65802 - dirblock)")
     (auto dest: inode_block_read_Inr_range)

declare ls_print.simps [simp del]

text \<open>
  The first half of \<^verbatim>\<open>unix_ls\<close>: the root inode 2 is loaded and the path walked;
  the second half prints the directory reached.
\<close>

definition ls_resolve :: "env \<Rightarrow> string \<Rightarrow> outcome + (Inode \<times> nat \<times> byte list)" where
  "ls_resolve e path =
     (case read_inode e 2 of
        Inl err \<Rightarrow> Inl (Failed err)
      | Inr root \<Rightarrow> ls_walk e (strtok_all path) root 0 (auto_buf e 1024))"

definition unix_ls :: "env \<Rightarrow> string \<Rightarrow> outcome \<times> ls_line list" where
  "unix_ls e path =
     (if take 1 path \<noteq> ''/'' then (InvalidPath, [])
      else case ls_resolve e path of
             Inl r \<Rightarrow> (r, [])
           | Inr (dir_inode, dirblock, dir_buffer) \<Rightarrow>
               ls_print e dir_inode dirblock dir_buffer [])"

subsection \<open>Extraction: \<^verbatim>\<open>unix_read\<close>\<close>

text \<open>
  The host's files by name, and the names \<^verbatim>\<open>open(2)\<close> refuses.  The target is
  opened with \<^verbatim>\<open>O_RDWR | O_CREAT\<close>: an existing file keeps its bytes, a missing one
  is created empty, and writing starts at offset 0.  The target is a file other than
  the band image.
\<close>

record host =
  files :: "string \<Rightarrow> byte list option"
  denied :: "string \<Rightarrow> bool"

record target =
  content :: "byte list"
  wpos :: nat

definition open_rdwr :: "host \<Rightarrow> string \<Rightarrow> byte list option" where
  "open_rdwr h name = (if denied h name then None else files h name)"

definition open_creat :: "host \<Rightarrow> string \<Rightarrow> target option" where
  "open_creat h name =
     (if denied h name then None
      else Some \<lparr> content = (case files h name of None \<Rightarrow> [] | Some c \<Rightarrow> c), wpos = 0 \<rparr>)"

text \<open>
  \<^verbatim>\<open>write(fd, buf, n)\<close> on a regular file: \<open>None\<close> for an error, otherwise all
  \<open>n\<close> bytes replace the file's bytes from the current offset on (a gap before
  the offset reads as zeros) and the offset advances.
\<close>

definition sys_write :: "env \<Rightarrow> target \<Rightarrow> byte list \<Rightarrow> target option" where
  "sys_write e t data =
     (if write_error e (wpos t) then None
      else Some \<lparr> content =
                    take (wpos t) (content t @ replicate (wpos t - length (content t)) 0)
                      @ data @ drop (wpos t + length data) (content t),
                  wpos = wpos t + length data \<rparr>)"

definition store :: "host \<Rightarrow> string \<Rightarrow> target \<Rightarrow> host" where
  "store h name t = h \<lparr> files := (files h)(name := Some (content t)) \<rparr>"

text \<open>
  The entry loop of \<^verbatim>\<open>unix_read\<close>'s walk.  A match reads the entry's inode into
  \<^verbatim>\<open>file_inode\<close>; \<open>Matched (file_inode, d, f)\<close> carries it, the new directory inode
  and number when it is a directory, and the file's number when it is a regular file.
\<close>

function read_scan ::
  "env \<Rightarrow> string \<Rightarrow> byte list \<Rightarrow> nat \<Rightarrow> (Inode \<times> (Inode \<times> u16) option \<times> u16 option) scan" where
  "read_scan e pathpart dir_buffer x =
     (if x < 64 \<and> entry_inode dir_buffer x \<noteq> 0 then
        if length pathpart > 14 then Return NameTooLong
        else if strncmp_eq (bytes_of pathpart) (entry_name dir_buffer x) 14 then
          (case read_inode e (ucast (swap_hword (entry_inode dir_buffer x))) of
             Inl err \<Rightarrow> Return (Failed err)
           | Inr file_inode \<Rightarrow>
               (let number = swap_hword (entry_inode dir_buffer x);
                    f = (if type file_inode = INODE_FT_FILE then Some number else None)
                in if type file_inode = INODE_FT_DIR then
                     (case read_inode e (ucast number) of
                        Inl err \<Rightarrow> Return (Failed err)
                      | Inr dir_inode \<Rightarrow> Matched (file_inode, Some (dir_inode, number), f))
                   else Matched (file_inode, None, f)))
        else read_scan e pathpart dir_buffer (x + 1)
      else Ended x)"
  by pat_completeness auto
termination
  by (relation "measure (\<lambda>(e, pathpart, dir_buffer, x). 64 - x)") auto

declare read_scan.simps [simp del]

text \<open>
  The block loop for one component.  The state is \<^verbatim>\<open>dir_inode\<close>, \<^verbatim>\<open>dirblock\<close>,
  \<^verbatim>\<open>dir_buffer\<close>, \<^verbatim>\<open>dir_inode_number\<close>, \<^verbatim>\<open>file_inode\<close> and \<^verbatim>\<open>file_inode_number\<close>;
  \<^verbatim>\<open>dir_inode_number\<close> is cleared after every block read, so it is a result only.
\<close>

type_synonym read_state = "Inode \<times> nat \<times> byte list \<times> u16 \<times> Inode \<times> u16"

function read_lookup ::
  "env \<Rightarrow> string \<Rightarrow> Inode \<Rightarrow> nat \<Rightarrow> byte list \<Rightarrow> Inode \<Rightarrow> u16 \<Rightarrow> outcome + read_state" where
  "read_lookup e pathpart dir_inode dirblock dir_buffer file_inode file_inode_number =
     (case inode_block_read e dirblock dir_inode dir_buffer of
        (Inl err, buf, trace) \<Rightarrow> Inl (Failed err)
      | (Inr rv, buf, trace) \<Rightarrow>
          if rv = 0 then Inl EndOfData
          else (case read_scan e pathpart buf 0 of
                  Return r \<Rightarrow> Inl r
                | Matched (file_inode', d, f) \<Rightarrow>
                    (let file_inode_number' = (case f of None \<Rightarrow> file_inode_number | Some n \<Rightarrow> n)
                     in case d of
                          None \<Rightarrow> Inr (dir_inode, dirblock, buf, 0, file_inode', file_inode_number')
                        | Some (sub_inode, number) \<Rightarrow>
                            Inr (sub_inode, 0, buf, number, file_inode', file_inode_number'))
                | Ended x \<Rightarrow>
                    if x < 64 then Inr (dir_inode, dirblock, buf, 0, file_inode, file_inode_number)
                    else read_lookup e pathpart dir_inode (dirblock + 1) buf
                           file_inode file_inode_number))"
  by pat_completeness auto
termination
  by (relation "measure (\<lambda>(e, pathpart, dir_inode, dirblock, r). 65802 - dirblock)")
     (auto dest: inode_block_read_Inr_range)

declare read_lookup.simps [simp del]

fun read_walk ::
  "env \<Rightarrow> string list \<Rightarrow> Inode \<Rightarrow> nat \<Rightarrow> byte list \<Rightarrow> Inode \<Rightarrow> u16
     \<Rightarrow> outcome + (Inode \<times> u16)" where
  "read_walk e [] dir_inode dirblock dir_buffer file_inode file_inode_number =
     Inr (file_inode, file_inode_number)"
| "read_walk e (pathpart # rest) dir_inode dirblock dir_buffer file_inode file_inode_number =
     (if file_inode_number \<noteq> 0 then Inl FoundFileEarly
      else case read_lookup e pathpart dir_inode dirblock dir_buffer file_inode file_inode_number of
             Inl r \<Rightarrow> Inl r
           | Inr (dir_inode', dirblock', dir_buffer', dir_inode_number, file_inode', file_inode_number') \<Rightarrow>
               if dir_inode_number = 0 \<and> file_inode_number' = 0 then Inl NotFound
               else read_walk e rest dir_inode' dirblock' dir_buffer' file_inode' file_inode_number')"

text \<open>
  The copy loop \<^verbatim>\<open>while (x < file_inode.size)\<close>; \<open>x\<close> never exceeds the size, so
  the unsigned arithmetic does not wrap.
\<close>

function read_copy ::
  "env \<Rightarrow> Inode \<Rightarrow> byte list \<Rightarrow> nat \<Rightarrow> nat \<Rightarrow> target \<Rightarrow> outcome \<times> target" where
  "read_copy e file_inode file_buffer x fileblock t =
     (if x < unat (size_f file_inode) then
        (let osize = (if unat (size_f file_inode) - x < 1024 then unat (size_f file_inode) - x
                      else 1024)
         in case inode_block_read e fileblock file_inode file_buffer of
              (Inl err, buf, trace) \<Rightarrow> (Failed err, t)
            | (Inr rv, buf, trace) \<Rightarrow>
                if rv = 0 then (UnexpectedEOF, t)
                else (case sys_write e t (take osize buf) of
                        None \<Rightarrow> (Failed IOError, t)
                      | Some t' \<Rightarrow> read_copy e file_inode buf (x + osize) (fileblock + 1) t'))
      else (Done, t))"
  by pat_completeness auto
termination
  by (relation "measure (\<lambda>(e, file_inode, file_buffer, x, r). unat (size_f file_inode) - x)")
     auto

declare read_copy.simps [simp del]

text \<open>
  The path resolution of \<^verbatim>\<open>unix_read\<close>: the root inode 2 is loaded and the path
  walked.  \<^verbatim>\<open>file_inode\<close> is indeterminate until a match stores it and is read only
  once \<^verbatim>\<open>file_inode_number\<close> is set; it starts here as the decoding of junk bytes.
\<close>

definition read_resolve :: "env \<Rightarrow> string \<Rightarrow> outcome + (Inode \<times> u16)" where
  "read_resolve e path =
     (case read_inode e 2 of
        Inl err \<Rightarrow> Inl (Failed err)
      | Inr root \<Rightarrow>
          read_walk e (strtok_all path) root 0 (auto_buf e 1024) (decode_inode (auto_buf e 64)) 0)"

definition unix_read :: "env \<Rightarrow> host \<Rightarrow> string \<Rightarrow> string \<Rightarrow> outcome \<times> host" where
  "unix_read e h path filename =
     (if take 1 path \<noteq> ''/'' then (InvalidPath, h)
      else case open_creat h filename of
             None \<Rightarrow> (Failed IOError, h)
           | Some t \<Rightarrow>
               (case read_resolve e path of
                  Inl r \<Rightarrow> (r, store h filename t)
                | Inr (file_inode, file_inode_number) \<Rightarrow>
                    if file_inode_number = 0 then (NoFile, store h filename t)
                    else (case read_copy e file_inode (auto_buf e 1024) 0 0 t of
                            (r, t') \<Rightarrow> (r, store h filename t'))))"

subsection \<open>\<^verbatim>\<open>main\<close>\<close>

text \<open>
  \<^verbatim>\<open>superblock_buffer\<close> is a zero-initialised global; the packed \<^verbatim>\<open>SuperBlock\<close> is
  1024 bytes long (the size check at the start of \<^verbatim>\<open>main\<close> passes) and its \<^verbatim>\<open>magic\<close>
  lies at byte 1016.  \<open>argv\<close> is the argument vector with the program name first;
  the image \<^verbatim>\<open>disk_fd\<close> refers to is set from the opened file.
\<close>

definition superblock_magic :: "byte list \<Rightarrow> u32" where
  "superblock_magic superblock_buffer = word_at superblock_buffer 1016"

definition arg_is :: "string \<Rightarrow> string \<Rightarrow> nat \<Rightarrow> bool" where
  "arg_is a lit n = strncmp_eq (bytes_of a) (bytes_of lit) n"

definition main :: "env \<Rightarrow> host \<Rightarrow> string list \<Rightarrow> outcome \<times> ls_line list \<times> host" where
  "main e0 h argv =
     (let argc = length argv
      in if argc < 2 \<or> arg_is (argv ! 1) ''help'' 4 \<or> arg_is (argv ! 1) ''-?'' 2
         then (Usage, [], h)
         else if argc < 3 then (NoImageName, [], h)
         else case open_rdwr h (argv ! 2) of
                None \<Rightarrow> (Failed IOError, [], h)
              | Some bytes \<Rightarrow>
                  (let e = e0 \<lparr> image := bytes \<rparr>
                   in case disk_block_read e 1 (replicate 1024 0) of
                        (Inl err, superblock_buffer) \<Rightarrow> (Failed err, [], h)
                      | (Inr rv, superblock_buffer) \<Rightarrow>
                          if superblock_magic superblock_buffer \<noteq> 0x207E18FD
                          then (BadMagic, [], h)
                          else if arg_is (argv ! 1) ''ls'' 2 then
                            (if argc < 4 then (MissingArgument, [], h)
                             else case unix_ls e (argv ! 3) of (r, out) \<Rightarrow> (r, out, h))
                          else if arg_is (argv ! 1) ''read'' 4 then
                            (if argc < 4 then (MissingArgument, [], h)
                             else if argc < 5 then (MissingArgument, [], h)
                             else case unix_read e h (argv ! 3) (argv ! 4) of
                                    (r, h') \<Rightarrow> (r, [], h'))
                          else (UnknownCommand, [], h)))"

section \<open>Arithmetic of the C types\<close>

lemma sint_of_int_small:
  "- (2 ^ 31) \<le> k \<Longrightarrow> k < 2 ^ 31 \<Longrightarrow> sint (word_of_int k :: s32) = k"
  by (simp add: signed_of_int signed_take_bit_int_eq_self)

lemma sint_mult_small:
  assumes "- (2 ^ 31) \<le> sint (a :: s32) * c" "sint a * c < 2 ^ 31"
  shows "sint (a * word_of_int c) = sint a * c"
proof -
  have "a * word_of_int c = word_of_int (sint a * c)"
    by simp
  then show ?thesis using assms by (simp only: sint_of_int_small)
qed

lemma sint_block_offset:
  "0 \<le> sint (adr :: s32) \<Longrightarrow> sint adr < 2 ^ 21 \<Longrightarrow> sint (adr * 0x400) = sint adr * 1024"
  using sint_mult_small[of adr 1024] by simp

lemma uint16_less: "uint (n :: u16) < 65536"
  using uint_bounded[of n] by simp

lemma sint_ucast16: "sint (ucast (n :: u16) :: s32) = uint n"
proof -
  have "uint n < 2 ^ 31" using uint16_less[of n] by simp
  moreover have "- (2 ^ 31) \<le> uint n"
    by (rule order_trans[OF _ uint_nonnegative]) simp
  ultimately have "signed_take_bit 31 (uint n) = uint n"
    by (rule signed_take_bit_int_eq_self[rotated])
  then show ?thesis by (simp add: signed_ucast_eq)
qed

lemma sint_inode_offset: "sint ((ucast (n :: u16) :: s32) * 0x40) = uint n * 0x40"
proof -
  have "uint n * 64 < 2 ^ 31" using uint16_less[of n] by simp
  moreover have "- (2 ^ 31) \<le> uint n * 64"
    by (rule order_trans[of _ 0]) simp_all
  ultimately have "sint ((ucast n :: s32) * word_of_int 64) = sint (ucast n :: s32) * 64"
    using sint_mult_small[of "ucast n" 64] by (simp add: sint_ucast16)
  then show ?thesis by (simp add: sint_ucast16)
qed

section \<open>The block device\<close>

text \<open>A 1500-byte image: block 1 is cut short, and a read at offset 0 fails.\<close>

definition tiny :: env where
  "tiny = \<lparr> image = replicate 1500 1, read_error = (\<lambda>off. off = 0),
            write_error = (\<lambda>_. False), junk = (\<lambda>_. 0) \<rparr>"

text \<open>
  C8, as stated, fails: on an image that ends 476 bytes into block 1,
  \<^verbatim>\<open>disk_block_read\<close> does not fail; it returns the count 476 and a buffer whose
  last 548 bytes are the old ones.
\<close>

theorem disk_block_read_short_counterexample:
  "disk_block_read tiny 1 (replicate 1024 0) = (Inr 476, replicate 476 1 @ replicate 548 0)"
  by (simp add: tiny_def disk_block_read_def lseek_set_def sys_read_def fill_def)

text \<open>
  C8, amended: \<^verbatim>\<open>disk_block_read\<close> fails when the seek offset is negative, and for
  a block index from 0 up to \<open>2\<^sup>2\<^sup>1\<close> (where index * 1024 fits the C \<^verbatim>\<open>int\<close>) it seeks
  to index * 1024 and fails exactly when the read reports an error; otherwise it
  returns the number of bytes delivered, 1024 or fewer where the image ends, and
  only that many bytes at the front of the buffer are replaced.
\<close>

theorem disk_block_read_count:
  "(sint (adr * 0x400) < 0 \<longrightarrow> disk_block_read e adr buf = (Inl IOError, buf)) \<and>
   (0 \<le> sint adr \<and> sint adr < 2 ^ 21 \<longrightarrow>
      disk_block_read e adr buf =
        (if read_error e (sint adr * 1024) then (Inl IOError, buf)
         else (Inr (min 1024 (length (image e) - nat (sint adr * 1024))),
               fill (take 1024 (drop (nat (sint adr * 1024)) (image e))) buf)))"
proof (intro conjI impI)
  assume "sint (adr * 0x400) < 0"
  then show "disk_block_read e adr buf = (Inl IOError, buf)"
    by (simp add: disk_block_read_def lseek_set_def)
next
  assume a: "0 \<le> sint adr \<and> sint adr < 2 ^ 21"
  then have off: "sint (adr * 0x400) = sint adr * 1024"
    by (simp add: sint_block_offset)
  have "0 \<le> sint adr * 1024" using a by simp
  then show "disk_block_read e adr buf =
        (if read_error e (sint adr * 1024) then (Inl IOError, buf)
         else (Inr (min 1024 (length (image e) - nat (sint adr * 1024))),
               fill (take 1024 (drop (nat (sint adr * 1024)) (image e))) buf))"
    unfolding disk_block_read_def off
    by (simp add: lseek_set_def sys_read_def Let_def min.commute)
qed

theorem disk_block_read_count_witness:
  "sint ((0x200000 :: s32) * 0x400) < 0 \<and>
   disk_block_read tiny 0x200000 [7] = (Inl IOError, [7]) \<and>
   0 \<le> sint (1 :: s32) \<and> sint (1 :: s32) < 2 ^ 21 \<and>
   disk_block_read tiny 1 [7, 8] = (Inr 476, replicate 476 1) \<and>
   disk_block_read tiny 0 [7, 8] = (Inl IOError, [7, 8])"
  using disk_block_read_count[of "0x200000" tiny "[7]"]
        disk_block_read_count[of 1 tiny "[7, 8]"] disk_block_read_count[of 0 tiny "[7, 8]"]
  by (simp add: tiny_def fill_def)

section \<open>Byte order\<close>

lemma m8_32: "(0xFF :: u32) = mask 8" and m8s8_32: "(0xFF00 :: u32) = push_bit 8 (mask 8)"
  and m8s16_32:  "(0xFF0000 :: u32) = push_bit 16 (mask 8)"
  and m8s24_32:  "(0xFF000000 :: u32) = push_bit 24 (mask 8)"
  and m8_16: "(0xFF :: u16) = mask 8" and m8s8_16: "(0xFF00 :: u16) = push_bit 8 (mask 8)"
  and m4_16: "(0xF :: u16) = mask 4" and m4s4_16: "(0xF0 :: u16) = push_bit 4 (mask 4)"
  by (simp_all add: mask_eq_exp_minus_1)

lemma byte_bit: "bit (b :: byte) n \<Longrightarrow> n < 8"
  by (drule bit_imp_le_length) simp

lemma bit_le32: "bit (le32 a b c d) n \<longleftrightarrow>
   (n < 8 \<and> bit a n) \<or> (8 \<le> n \<and> n < 16 \<and> bit b (n - 8)) \<or> (16 \<le> n \<and> n < 24 \<and> bit c (n - 16)) \<or> (24 \<le> n \<and> n < 32 \<and> bit d (n - 24))"
  unfolding le32_def by (auto simp: bit_simps dest: byte_bit)

lemma swap_part1: "drop_bit 24 (le32 a b c d AND push_bit 24 (mask 8)) = ucast d"
  by (rule bit_word_eqI) (auto simp: bit_simps bit_le32 dest: byte_bit)
lemma swap_part2: "drop_bit 8 (le32 a b c d AND push_bit 16 (mask 8)) = push_bit 8 (ucast c)"
  by (rule bit_word_eqI) (auto simp: bit_simps bit_le32 dest: byte_bit)
lemma swap_part3: "push_bit 8 (le32 a b c d AND push_bit 8 (mask 8)) = push_bit 16 (ucast b)"
  by (rule bit_word_eqI) (auto simp: bit_simps bit_le32 dest: byte_bit)
lemma swap_part4: "push_bit 24 (le32 a b c d AND mask 8) = push_bit 24 (ucast a)"
  by (rule bit_word_eqI) (auto simp: bit_simps bit_le32 dest: byte_bit)

lemma swap_word_le32: "swap_word (le32 a b c d) = be32 a b c d"
  unfolding swap_word_def m8_32 m8s8_32 m8s16_32 m8s24_32 swap_part1 swap_part2 swap_part3 swap_part4 be32_def
  by (simp add: ac_simps)

lemma swap_hword_le16: "swap_hword (le16 a b) = be16 a b"
  unfolding swap_hword_def be16_def le16_def m8_32 m8s8_32
  by (rule bit_word_eqI) (auto simp: bit_simps dest: byte_bit)

lemma mode_formula: "drop_bit 8 ((r::u16) AND 0xFF00) OR push_bit 8 (r AND 0x000F) = (drop_bit 8 r AND 0xFF) OR push_bit 8 (r AND 0x0F)"
  unfolding m8_16 m8s8_16 m4_16
  by (rule bit_word_eqI) (auto simp: bit_simps)

lemma type_formula: "drop_bit 4 ((r::u16) AND 0x00F0) = drop_bit 4 r AND 0x0F"
  unfolding m4_16 m4s4_16
  by (rule bit_word_eqI) (auto simp: bit_simps)


lemma swap_word_example: "swap_word 0x12345678 = 0x78563412"
  by (simp add: swap_word_def)

lemma swap_hword_example: "swap_hword 0x1234 = 0x3412"
  by (simp add: swap_hword_def)

section \<open>The inode decoder\<close>

text \<open>
  The record of inode \<open>n\<close> in the image, and the inode C3 says it decodes to:
  the mode and type by the claim's formulas on the mode word as the host loads it,
  the swapped fields as the numbers their big-endian bytes denote, and the block
  addresses from the 39-byte address area.
\<close>

definition inode_record :: "env \<Rightarrow> u16 \<Rightarrow> byte list" where
  "inode_record e n = take 0x40 (drop (0x7C0 + unat n * 0x40) (image e))"

definition claimed_inode :: "byte list \<Rightarrow> Inode" where
  "claimed_inode rec =
     (let raw16 = le16 (rec ! 0) (rec ! 1); area = take 39 (drop 12 rec)
      in \<lparr> mode = (drop_bit 8 raw16 AND 0xFF) OR push_bit 8 (raw16 AND 0x0F),
            type = drop_bit 4 raw16 AND 0x0F,
            nlink = be16 (rec ! 2) (rec ! 3),
            uid = be16 (rec ! 4) (rec ! 5),
            gid = be16 (rec ! 6) (rec ! 7),
            size_f = be32 (rec ! 8) (rec ! 9) (rec ! 10) (rec ! 11),
            addr = map (\<lambda>k. be24 (area ! (3 * k)) (area ! (3 * k + 1)) (area ! (3 * k + 2)))
                       [0..<13],
            atime = ucast (be32 (rec ! 52) (rec ! 53) (rec ! 54) (rec ! 55)),
            mtime = ucast (be32 (rec ! 56) (rec ! 57) (rec ! 58) (rec ! 59)),
            ctime = ucast (be32 (rec ! 60) (rec ! 61) (rec ! 62) (rec ! 63)) \<rparr>)"

lemma decode_inode_claimed:
  assumes "length rec = 64"
  shows "decode_inode rec = claimed_inode rec"
proof -
  have a: "map (decode_addr rec) [0..<13] =
        map (\<lambda>k. be24 (take 39 (drop 12 rec) ! (3 * k)) (take 39 (drop 12 rec) ! (3 * k + 1))
                      (take 39 (drop 12 rec) ! (3 * k + 2))) [0..<13]"
    using assms by (auto simp: decode_addr_def raw_addr_def be24_def mult.commute)
  show ?thesis
    unfolding decode_inode_def claimed_inode_def Let_def a hword_at_def word_at_def
      swap_hword_le16 swap_word_le32 mode_formula type_formula
    by simp
qed

lemma fill_full: "length buf \<le> length data \<Longrightarrow> fill data buf = data"
  by (simp add: fill_def)

lemma length_auto_buf [simp]: "length (auto_buf e n) = n"
  by (simp add: auto_buf_def)



text \<open>
  A sample image: superblock magic in block 1, root inode 2 (a directory, block
  5), inode 10 (a directory, block 6), inode 42 (a regular file of 5 bytes, block
  7); block 5 holds the entry \<open>bin\<close> for inode 10, block 6 the entry \<open>sh\<close> for
  inode 42, block 7 the file's bytes.
\<close>

definition dir_mode :: "byte list" where "dir_mode = [0x41, 0xED]"
definition file_mode :: "byte list" where "file_mode = [0x81, 0xA4]"

definition inode_bytes :: "byte list \<Rightarrow> byte \<Rightarrow> byte \<Rightarrow> byte list" where
  "inode_bytes m sz blk = m @ [0, 1, 0, 3, 0, 4, 0, 0, 0, sz, 0, 0, blk] @ replicate 37 0
      @ [0x5D, 0, 0, 1, 0x5D, 0, 0, 2, 0x5D, 0, 0, 3]"

definition dirent_bytes :: "byte \<Rightarrow> string \<Rightarrow> byte list" where
  "dirent_bytes n name = [0, n] @ bytes_of name @ replicate (14 - length name) 0"

definition demo_image :: "byte list" where
  "demo_image =
     replicate 2040 0 @ [0xFD, 0x18, 0x7E, 0x20] @ replicate 68 0
       @ inode_bytes dir_mode 32 5 @ replicate 448 0
       @ inode_bytes dir_mode 32 6 @ replicate 1984 0
       @ inode_bytes file_mode 5 7 @ replicate 384 0
       @ (dirent_bytes 10 ''bin'' @ replicate 1008 0)
       @ (dirent_bytes 42 ''sh'' @ replicate 1008 0)
       @ (bytes_of ''hello'' @ replicate 1019 0)"

definition demo :: env where
  "demo = \<lparr> image = demo_image, read_error = (\<lambda>_. False), write_error = (\<lambda>_. False),
            junk = (\<lambda>_. 0xEE) \<rparr>"

lemma length_demo_image: "length demo_image = 8192"
  by (simp add: demo_image_def inode_bytes_def dirent_bytes_def dir_mode_def file_mode_def bytes_of_def)


lemma read_inode_in_image:
  fixes n :: u16
  assumes "\<not> read_error e (0x7C0 + uint n * 0x40)"
    and "0x7C0 + unat n * 0x40 + 0x40 \<le> length (image e)"
  shows "read_inode e (ucast n) = Inr (claimed_inode (inode_record e n))"
proof -
  have len: "length (inode_record e n) = 64"
    using assms(2) by (simp add: inode_record_def)
  have nn: "nat (1984 + uint n * 64) = 1984 + unat n * 64"
    by (simp add: nat_add_distrib nat_mult_distrib)
  have pos: "\<not> 1984 + uint n * 64 < 0"
    using uint_nonnegative[of n] by linarith
  have "read_inode e (ucast n) = Inr (decode_inode (fill (inode_record e n) (auto_buf e 0x40)))"
    using assms(1) pos
    by (simp add: read_inode_def sint_inode_offset lseek_set_def sys_read_def inode_record_def nn
          Let_def)
  also have "fill (inode_record e n) (auto_buf e 0x40) = inode_record e n"
    using len by (simp add: fill_full)
  finally show ?thesis using len by (simp add: decode_inode_claimed)
qed

text \<open>
  C3: for every 16-bit inode number \<open>n\<close> whose 64-byte record at offset
  \<open>0x7C0 + n * 0x40\<close> lies in the image and is read without error,
  \<^verbatim>\<open>read_inode\<close> succeeds and returns the inode the claim describes.
\<close>

theorem read_inode_decodes:
  fixes n :: u16
  assumes "\<not> read_error e (0x7C0 + uint n * 0x40)"
    and "0x7C0 + unat n * 0x40 + 0x40 \<le> length (image e)"
  shows "read_inode e (ucast n) = Inr (claimed_inode (inode_record e n))"
  using assms by (rule read_inode_in_image)

lemma inode_record_demo_2: "inode_record demo 2 = inode_bytes dir_mode 32 5"
  by (simp add: inode_record_def demo_def demo_image_def inode_bytes_def dir_mode_def)

lemma claimed_inode_demo_2:
  "claimed_inode (inode_record demo 2) =
     \<lparr> mode = 0x1ED, type = INODE_FT_DIR, nlink = 1, uid = 3, gid = 4, size_f = 32,
       addr = [5, 0, 0, 0, 0, 0, 0, 0, 0, 0, 0, 0, 0],
       atime = 0x5D000001, mtime = 0x5D000002, ctime = 0x5D000003 \<rparr>"
  unfolding inode_record_demo_2
  by (simp add: claimed_inode_def inode_bytes_def dir_mode_def le16_def be16_def be24_def be32_def
        INODE_FT_DIR_def upt_conv_Cons nth_append)

theorem read_inode_decodes_witness:
  "\<not> read_error demo (0x7C0 + uint (2 :: u16) * 0x40) \<and>
   0x7C0 + unat (2 :: u16) * 0x40 + 0x40 \<le> length (image demo) \<and>
   read_inode demo (ucast (2 :: u16)) = Inr (claimed_inode (inode_record demo 2)) \<and>
   type (claimed_inode (inode_record demo 2)) = INODE_FT_DIR \<and>
   mode (claimed_inode (inode_record demo 2)) = 0x1ED \<and>
   addr (claimed_inode (inode_record demo 2)) = [5, 0, 0, 0, 0, 0, 0, 0, 0, 0, 0, 0, 0]"
proof -
  have h1: "\<not> read_error demo (0x7C0 + uint (2 :: u16) * 0x40)"
    by (simp add: demo_def)
  have h2: "0x7C0 + unat (2 :: u16) * 0x40 + 0x40 \<le> length (image demo)"
    by (simp add: demo_def length_demo_image)
  show ?thesis
    using h1 h2 read_inode_decodes[OF h1 h2] by (simp add: claimed_inode_demo_2)
qed


section \<open>The block resolver\<close>

text \<open>
  Whether the read of an indirect block at physical block \<open>b\<close> succeeds, the
  byte-swapped entry at offset \<open>k\<close> of that block, and the last step of every
  resolution: the read of the resolved block into the caller's buffer, logged
  after the indirect reads.
\<close>

definition indirect_read_ok :: "env \<Rightarrow> s32 \<Rightarrow> bool" where
  "indirect_read_ok e b =
     (case fst (disk_block_read e b (auto_buf e 1024)) of Inl err \<Rightarrow> False | Inr n \<Rightarrow> True)"

definition indirect_entry :: "env \<Rightarrow> s32 \<Rightarrow> nat \<Rightarrow> u32" where
  "indirect_entry e b k =
     swap_word (word_at (snd (disk_block_read e b (auto_buf e 1024))) (4 * k))"

definition final_read :: "env \<Rightarrow> s32 \<Rightarrow> byte list \<Rightarrow> s32 list \<Rightarrow> (error + nat) \<times> byte list \<times> s32 list" where
  "final_read e block buf trace =
     (fst (disk_block_read e block buf), snd (disk_block_read e block buf), trace @ [block])"

lemma disk_block_read_error: "disk_block_read e b buf = (Inl err, buf') \<Longrightarrow> err = IOError"
  by (auto simp: disk_block_read_def Let_def split: if_splits option.splits)

lemma inode_block_read_direct:
  "i < 10 \<Longrightarrow>
      inode_block_read e i ino buf =
        (if 0 < sint (addr ino ! i) then final_read e (addr ino ! i) buf []
         else (Inr 0, buf, []))"
  by (simp add: inode_block_read_def final_read_def Let_def split: prod.splits)

lemma inode_block_read_single:
  "10 \<le> i \<Longrightarrow> i < 266 \<Longrightarrow>
      inode_block_read e i ino buf =
        (if indirect_read_ok e (addr ino ! 10)
         then final_read e (indirect_entry e (addr ino ! 10) (i - 10)) buf [addr ino ! 10]
         else (Inl IOError, buf, [addr ino ! 10]))"
  by (auto simp: inode_block_read_def final_read_def indirect_read_ok_def indirect_entry_def
        Let_def split: prod.splits sum.splits dest: disk_block_read_error)

lemma inode_block_read_double:
  "266 \<le> i \<Longrightarrow> i < 65802 \<Longrightarrow>
      inode_block_read e i ino buf =
        (if indirect_read_ok e (addr ino ! 11)
         then if indirect_read_ok e (indirect_entry e (addr ino ! 11) ((i - 266) div 256))
              then final_read e
                     (indirect_entry e (indirect_entry e (addr ino ! 11) ((i - 266) div 256))
                        ((i - 266) - ((i - 266) div 256) * 256))
                     buf [addr ino ! 11, indirect_entry e (addr ino ! 11) ((i - 266) div 256)]
              else (Inl IOError, buf,
                    [addr ino ! 11, indirect_entry e (addr ino ! 11) ((i - 266) div 256)])
         else (Inl IOError, buf, [addr ino ! 11]))"
  by (auto simp: inode_block_read_def final_read_def indirect_read_ok_def indirect_entry_def
        Let_def split: prod.splits sum.splits dest: disk_block_read_error)

lemma disk_block_read_full:
  assumes "0 \<le> sint b" "sint b < 2 ^ 21" "\<not> read_error e (sint b * 1024)"
    and "nat (sint b) * 1024 + 1024 \<le> length (image e)" "length buf \<le> 1024"
  shows "disk_block_read e b buf = (Inr 1024, take 1024 (drop (nat (sint b) * 1024) (image e)))"
proof -
  have "0 \<le> sint b * 1024" using assms(1) by simp
  moreover have "nat (sint b * 1024) = nat (sint b) * 1024"
    using assms(1) by (simp add: nat_mult_distrib)
  ultimately show ?thesis
    using assms
    by (simp add: disk_block_read_def sint_block_offset lseek_set_def sys_read_def Let_def
          fill_full)
qed

lemma indirect_entry_image:
  assumes "0 \<le> sint b" "sint b < 2 ^ 21" "\<not> read_error e (sint b * 1024)"
    and "nat (sint b) * 1024 + 1024 \<le> length (image e)" "k < 256"
  shows "indirect_read_ok e b"
    and "indirect_entry e b k =
           be32 (image e ! (nat (sint b) * 1024 + 4 * k)) (image e ! (nat (sint b) * 1024 + 4 * k + 1))
                (image e ! (nat (sint b) * 1024 + 4 * k + 2)) (image e ! (nat (sint b) * 1024 + 4 * k + 3))"
  using assms
  by (simp_all add: indirect_read_ok_def indirect_entry_def disk_block_read_full word_at_def
        swap_word_le32 add.assoc)

text \<open>
  A four-block image: block 1 is an indirect block whose entry 0 is 0 and whose
  entry 1 is 3, block 2 a first-level indirect block whose entry 0 is 1, block 3
  data; and an inode with direct address 3, the hole 0 in slot 1, indirect block 1
  and double-indirect block 2.
\<close>

definition block_image :: "byte list" where
  "block_image =
     replicate 1024 0xAA @ ([0, 0, 0, 0, 0, 0, 0, 3] @ replicate 1016 0)
       @ ([0, 0, 0, 1] @ replicate 1020 0) @ replicate 1024 0x42"

definition bdemo :: env where
  "bdemo = \<lparr> image = block_image, read_error = (\<lambda>_. False), write_error = (\<lambda>_. False),
             junk = (\<lambda>_. 0xEE) \<rparr>"

definition bnode :: Inode where
  "bnode = \<lparr> mode = 0x1A4, type = INODE_FT_FILE, nlink = 1, uid = 0, gid = 0, size_f = 300000,
             addr = [3, 0, 0, 0, 0, 0, 0, 0, 0, 0, 1, 2, 0], atime = 0, mtime = 0, ctime = 0 \<rparr>"

lemma bdemo_block0: "length buf \<le> 1024 \<Longrightarrow> disk_block_read bdemo 0 buf = (Inr 1024, replicate 1024 0xAA)"
  by (simp add: disk_block_read_def lseek_set_def sys_read_def fill_def bdemo_def block_image_def)

lemma bdemo_block1: "length buf \<le> 1024 \<Longrightarrow> disk_block_read bdemo 1 buf = (Inr 1024, [0, 0, 0, 0, 0, 0, 0, 3] @ replicate 1016 0)"
  by (simp add: disk_block_read_def lseek_set_def sys_read_def fill_def bdemo_def block_image_def)

lemma bdemo_block2: "length buf \<le> 1024 \<Longrightarrow> disk_block_read bdemo 2 buf = (Inr 1024, [0, 0, 0, 1] @ replicate 1020 0)"
  by (simp add: disk_block_read_def lseek_set_def sys_read_def fill_def bdemo_def block_image_def)

lemma bdemo_block3: "length buf \<le> 1024 \<Longrightarrow> disk_block_read bdemo 3 buf = (Inr 1024, replicate 1024 0x42)"
  by (simp add: disk_block_read_def lseek_set_def sys_read_def fill_def bdemo_def block_image_def)

lemma bdemo_ok: "indirect_read_ok bdemo 1" "indirect_read_ok bdemo 2"
  by (simp_all add: indirect_read_ok_def bdemo_block1 bdemo_block2)

lemma bdemo_entries:
  "indirect_entry bdemo 1 0 = 0" "indirect_entry bdemo 1 (Suc 0) = 3" "indirect_entry bdemo 2 0 = 1"
  by (simp_all add: indirect_entry_def bdemo_block1 bdemo_block2 word_at_def swap_word_le32
        be32_def)

text \<open>
  C1: a logical index below 10 resolves to \<open>addr[i]\<close> with no indirect read (and
  to end of data, with no read at all, when that is not positive); an index in
  [10, 266) reads the indirect block at \<open>addr[10]\<close> and then the block its swapped
  entry \<open>i - 10\<close> names; an index in [266, 65802) reads the block at \<open>addr[11]\<close>,
  the block its entry \<open>(i - 266) / 256\<close> names, and then the block named by that
  block's entry \<open>(i - 266) - ((i - 266) / 256) * 256\<close>; from 65802 on the
  resolution fails with "Further indirection required".  A failed indirect read
  ends the resolution with its error.
\<close>

theorem inode_block_read_ranges:
  "(i < 10 \<longrightarrow>
      inode_block_read e i ino buf =
        (if 0 < sint (addr ino ! i) then final_read e (addr ino ! i) buf []
         else (Inr 0, buf, []))) \<and>
   (10 \<le> i \<and> i < 266 \<longrightarrow>
      inode_block_read e i ino buf =
        (if indirect_read_ok e (addr ino ! 10)
         then final_read e (indirect_entry e (addr ino ! 10) (i - 10)) buf [addr ino ! 10]
         else (Inl IOError, buf, [addr ino ! 10]))) \<and>
   (266 \<le> i \<and> i < 65802 \<longrightarrow>
      inode_block_read e i ino buf =
        (if indirect_read_ok e (addr ino ! 11)
         then if indirect_read_ok e (indirect_entry e (addr ino ! 11) ((i - 266) div 256))
              then final_read e
                     (indirect_entry e (indirect_entry e (addr ino ! 11) ((i - 266) div 256))
                        ((i - 266) - ((i - 266) div 256) * 256))
                     buf [addr ino ! 11, indirect_entry e (addr ino ! 11) ((i - 266) div 256)]
              else (Inl IOError, buf,
                    [addr ino ! 11, indirect_entry e (addr ino ! 11) ((i - 266) div 256)])
         else (Inl IOError, buf, [addr ino ! 11]))) \<and>
   (65802 \<le> i \<longrightarrow> inode_block_read e i ino buf = (Inl FurtherIndirection, buf, []))"
  using inode_block_read_direct[of i e ino buf] inode_block_read_single[of i e ino buf]
    inode_block_read_double[of i e ino buf]
  by (simp add: inode_block_read_def)


theorem inode_block_read_ranges_witness:
  "inode_block_read bdemo 0 bnode (replicate 1024 0) = (Inr 1024, replicate 1024 0x42, [3]) \<and>
   indirect_read_ok bdemo (addr bnode ! 10) \<and>
   inode_block_read bdemo 11 bnode (replicate 1024 0) = (Inr 1024, replicate 1024 0x42, [1, 3]) \<and>
   indirect_read_ok bdemo (addr bnode ! 11) \<and>
   inode_block_read bdemo 267 bnode (replicate 1024 0) = (Inr 1024, replicate 1024 0x42, [2, 1, 3]) \<and>
   inode_block_read bdemo 65802 bnode (replicate 1024 0) = (Inl FurtherIndirection, replicate 1024 0, [])"
  using inode_block_read_ranges[of 0 bdemo bnode "replicate 1024 0"]
    inode_block_read_ranges[of 11 bdemo bnode "replicate 1024 0"]
    inode_block_read_ranges[of 267 bdemo bnode "replicate 1024 0"]
    inode_block_read_ranges[of 65802 bdemo bnode "replicate 1024 0"]
  by (simp add: bnode_def bdemo_ok bdemo_entries final_read_def bdemo_block3)

text \<open>
  C2 on the code: the hole in direct slot 1 is end of data, but at logical index 10
  the indirect entry is 0 and \<^verbatim>\<open>inode_block_read\<close> reads physical block 0 and
  returns its 1024 bytes; likewise at index 266 through the double-indirect path.
\<close>

theorem inode_block_read_zero_entry_reads_block_0:
  "inode_block_read bdemo 1 bnode (replicate 1024 0) = (Inr 0, replicate 1024 0, []) \<and>
   inode_block_read bdemo 10 bnode (replicate 1024 0) = (Inr 1024, replicate 1024 0xAA, [1, 0]) \<and>
   inode_block_read bdemo 266 bnode (replicate 1024 0) = (Inr 1024, replicate 1024 0xAA, [2, 1, 0])"
  by (simp add: inode_block_read_direct inode_block_read_single inode_block_read_double
        bnode_def bdemo_ok bdemo_entries final_read_def bdemo_block0)


section \<open>The extraction loop\<close>

text \<open>
  What \<^verbatim>\<open>inode_block_read\<close> returns for logical block \<open>i\<close> of a file and the
  buffer it leaves, read into a fresh buffer.  The count does not depend on the
  buffer passed in, and a full block replaces the whole buffer.
\<close>

definition block_count :: "env \<Rightarrow> Inode \<Rightarrow> nat \<Rightarrow> error + nat" where
  "block_count e file_inode i = fst (inode_block_read e i file_inode (auto_buf e 1024))"

definition file_block :: "env \<Rightarrow> Inode \<Rightarrow> nat \<Rightarrow> byte list" where
  "file_block e file_inode i = fst (snd (inode_block_read e i file_inode (auto_buf e 1024)))"

lemma disk_block_read_fst: "fst (disk_block_read e a b) = fst (disk_block_read e a b')"
  by (simp add: disk_block_read_def Let_def split: option.splits)

lemma disk_block_read_snd_full:
  assumes "fst (disk_block_read e a b) = Inr 1024" "length b \<le> 1024" "length b' \<le> 1024"
  shows "snd (disk_block_read e a b) = snd (disk_block_read e a b')"
    and "length (snd (disk_block_read e a b)) = 1024"
  using assms
  by (auto simp: disk_block_read_def Let_def fill_def split: option.splits if_splits)

lemma inode_block_read_shape:
  "(\<exists>a tr. \<forall>b. inode_block_read e i ino b = final_read e a b tr) \<or>
   (\<exists>c tr. c \<noteq> Inr 1024 \<and> (\<forall>b. inode_block_read e i ino b = (c, b, tr)))"
proof -
  consider "i < 10" | "10 \<le> i" "i < 266" | "266 \<le> i" "i < 65802" | "65802 \<le> i"
    by linarith
  then show ?thesis
  proof cases
    case 1
    then show ?thesis
      by (cases "0 < sint (addr ino ! i)") (auto simp: inode_block_read_direct)
  next
    case 2
    then show ?thesis
      by (cases "indirect_read_ok e (addr ino ! 10)") (auto simp: inode_block_read_single)
  next
    case 3
    then show ?thesis
      by (cases "indirect_read_ok e (addr ino ! 11)";
          cases "indirect_read_ok e (indirect_entry e (addr ino ! 11) ((i - 266) div 256))")
         (auto simp: inode_block_read_double)
  next
    case 4
    then show ?thesis by (auto simp: inode_block_read_def)
  qed
qed

lemma inode_block_read_fst:
  "fst (inode_block_read e i ino b) = block_count e ino i"
  using inode_block_read_shape[of e i ino] disk_block_read_fst[of e _ b "auto_buf e 1024"]
  by (auto simp: block_count_def final_read_def)

lemma inode_block_read_full:
  assumes "block_count e ino i = Inr 1024" "length b \<le> 1024"
  shows "fst (snd (inode_block_read e i ino b)) = file_block e ino i"
    and "length (file_block e ino i) = 1024"
proof -
  from inode_block_read_shape[of e i ino] assms(1)
  obtain a tr where sh: "\<forall>b. inode_block_read e i ino b = final_read e a b tr"
    by (auto simp: block_count_def)
  then have f: "fst (disk_block_read e a (auto_buf e 1024)) = Inr 1024"
    using assms(1) by (simp add: block_count_def final_read_def)
  have l: "length (auto_buf e 1024) \<le> 1024" by simp
  show "fst (snd (inode_block_read e i ino b)) = file_block e ino i"
    using sh disk_block_read_snd_full(1)[OF f l assms(2)]
    by (simp add: file_block_def final_read_def)
  show "length (file_block e ino i) = 1024"
    using sh disk_block_read_snd_full(2)[OF f l l]
    by (simp add: file_block_def final_read_def)
qed

lemma length_inode_block_read:
  "length b = 1024 \<Longrightarrow> length (fst (snd (inode_block_read e i ino b))) = 1024"
proof -
  have d: "\<And>a. length b = 1024 \<Longrightarrow> length (snd (disk_block_read e a b)) = 1024"
    by (auto simp: disk_block_read_def Let_def fill_def sys_read_def split: option.splits if_splits)
  assume "length b = 1024"
  then show ?thesis
    using inode_block_read_shape[of e i ino] d by (auto simp: final_read_def)
qed

lemma sys_write_inside:
  assumes "\<not> write_error e (wpos t)" "wpos t \<le> length (content t)"
  shows "sys_write e t data =
           Some \<lparr> content = take (wpos t) (content t) @ data @ drop (wpos t + length data) (content t),
                  wpos = wpos t + length data \<rparr>"
  using assms by (simp add: sys_write_def)

lemma length_concat_blocks:
  "\<forall>i. a \<le> i \<and> i < a + m \<longrightarrow> length (f i) = 1024 \<Longrightarrow> length (concat (map f [a..<a + m])) = 1024 * m"
  by (induction m) auto

lemma read_copy_steps:
  assumes "\<forall>i. fb \<le> i \<and> i < fb + m \<longrightarrow> block_count e fi i = Inr 1024"
    and "x + 1024 * m \<le> unat (size_f fi)" "length buf \<le> 1024" "\<forall>p. \<not> write_error e p"
    and "wpos t = x" "x \<le> length (content t)"
  shows "\<exists>buf'. length buf' \<le> 1024 \<and>
           read_copy e fi buf x fb t =
           read_copy e fi buf' (x + 1024 * m) (fb + m)
             \<lparr> content = take x (content t) @ concat (map (file_block e fi) [fb..<fb + m])
                            @ drop (x + 1024 * m) (content t),
               wpos = x + 1024 * m \<rparr>"
  using assms
proof (induction m arbitrary: buf x fb t)
  case 0
  have "\<lparr> content = take x (content t) @ concat (map (file_block e fi) [fb..<fb + 0])
                            @ drop (x + 1024 * 0) (content t),
          wpos = x + 1024 * 0 \<rparr> = t"
    using "0.prems"(5) by (intro target.equality) simp_all
  then have "read_copy e fi buf x fb t =
           read_copy e fi buf (x + 1024 * 0) (fb + 0)
             \<lparr> content = take x (content t) @ concat (map (file_block e fi) [fb..<fb + 0])
                            @ drop (x + 1024 * 0) (content t),
               wpos = x + 1024 * 0 \<rparr>"
    by (simp only: add_0_right mult_0_right)
  with "0.prems"(3) show ?case by blast
next
  case (Suc m)
  let ?S = "unat (size_f fi)"
  let ?blk = "file_block e fi fb"
  have cnt: "block_count e fi fb = Inr 1024" using Suc.prems(1) by simp
  obtain tr where rd: "inode_block_read e fb fi buf = (Inr 1024, ?blk, tr)"
    using inode_block_read_fst[of e fb fi buf] inode_block_read_full(1)[OF cnt Suc.prems(3)] cnt
    by (metis prod.collapse)
  have len: "length ?blk = 1024" using inode_block_read_full(2)[OF cnt Suc.prems(3)] .
  let ?t1 = "\<lparr> content = take x (content t) @ ?blk @ drop (x + 1024) (content t), wpos = x + 1024 \<rparr>"
  have wr: "sys_write e t (take 1024 ?blk) = Some ?t1"
    using sys_write_inside[of e t "take 1024 ?blk"] Suc.prems(4,5,6) len by simp
  have os: "x < ?S" "\<not> ?S - x < 1024"
    using Suc.prems(2) by simp_all
  have step: "read_copy e fi buf x fb t = read_copy e fi ?blk (x + 1024) (fb + 1) ?t1"
    by (subst read_copy.simps) (simp add: rd wr os)
  have ih_pre: "\<forall>i. fb + 1 \<le> i \<and> i < fb + 1 + m \<longrightarrow> block_count e fi i = Inr 1024"
    using Suc.prems(1) by simp
  from Suc.IH[of "fb + 1" "x + 1024" ?blk ?t1, OF ih_pre] Suc.prems len
  obtain buf' where b: "length buf' \<le> 1024"
    and r: "read_copy e fi ?blk (x + 1024) (fb + 1) ?t1 =
            read_copy e fi buf' (x + 1024 + 1024 * m) (fb + 1 + m)
             \<lparr> content = take (x + 1024) (content ?t1) @ concat (map (file_block e fi) [fb + 1..<fb + 1 + m])
                            @ drop (x + 1024 + 1024 * m) (content ?t1),
               wpos = x + 1024 + 1024 * m \<rparr>"
    by auto
  have c1: "take (x + 1024) (content ?t1) = take x (content t) @ ?blk"
    using Suc.prems(6) len by simp
  have c2: "drop (x + 1024 + 1024 * m) (content ?t1) = drop (x + 1024 * Suc m) (content t)"
    using Suc.prems(6) len by (simp add: ac_simps)
  have up: "[fb..<fb + Suc m] = fb # [fb + 1..<fb + 1 + m]"
    by (simp add: upt_conv_Cons)
  have main: "read_copy e fi buf x fb t =
      read_copy e fi buf' (x + 1024 + 1024 * m) (fb + 1 + m)
        \<lparr> content = (take x (content t) @ ?blk) @ concat (map (file_block e fi) [fb + 1..<fb + 1 + m])
                       @ drop (x + 1024 * Suc m) (content t),
          wpos = x + 1024 + 1024 * m \<rparr>"
    using step r by (simp only: c1 c2)
  have e1: "x + 1024 + 1024 * m = x + 1024 * Suc m" by simp
  have e2: "fb + 1 + m = fb + Suc m" by simp
  have e3: "(take x (content t) @ ?blk) @ concat (map (file_block e fi) [fb + 1..<fb + 1 + m])
              @ drop (x + 1024 * Suc m) (content t) =
            take x (content t) @ concat (map (file_block e fi) [fb..<fb + Suc m])
              @ drop (x + 1024 * Suc m) (content t)"
    by (simp only: up) simp
  have "read_copy e fi buf x fb t =
      read_copy e fi buf' (x + 1024 * Suc m) (fb + Suc m)
        \<lparr> content = take x (content t) @ concat (map (file_block e fi) [fb..<fb + Suc m])
                       @ drop (x + 1024 * Suc m) (content t),
          wpos = x + 1024 * Suc m \<rparr>"
    using main unfolding e3 unfolding e1 e2 .
  with b show ?case by blast
qed

lemma read_copy_done: "\<not> x < unat (size_f fi) \<Longrightarrow> read_copy e fi buf x fb t = (Done, t)"
  by (subst read_copy.simps) simp

lemma read_copy_last_block:
  assumes we: "\<forall>p. \<not> write_error e p" and w: "wpos t = x" and xl: "x \<le> length (content t)"
    and S: "unat (size_f fi) = x + r" and r: "0 < r" "r < 1024"
    and cnt: "block_count e fi fb = Inr 1024" and b: "length buf \<le> 1024"
  shows "read_copy e fi buf x fb t =
           (Done, \<lparr> content = take x (content t) @ take r (file_block e fi fb)
                              @ drop (x + r) (content t),
                    wpos = x + r \<rparr>)"
proof -
  let ?B = "file_block e fi"
  obtain tr where rd: "inode_block_read e fb fi buf = (Inr 1024, ?B fb, tr)"
    using inode_block_read_fst[of e fb fi buf] inode_block_read_full(1)[OF cnt b] cnt
    by (metis prod.collapse)
  have len: "length (?B fb) = 1024" using inode_block_read_full(2)[OF cnt b] .
  let ?t' = "\<lparr> content = take x (content t) @ take r (?B fb) @ drop (x + r) (content t),
              wpos = x + r \<rparr>"
  have lt: "length (take r (?B fb)) = r" using len r by simp
  have wr: "sys_write e t (take r (?B fb)) = Some ?t'"
    using sys_write_inside[of e t "take r (?B fb)"] we w xl by (simp only: lt) simp
  have os: "x < unat (size_f fi)" "unat (size_f fi) - x < 1024" "unat (size_f fi) - x = r"
    using r S by simp_all
  have "read_copy e fi buf x fb t = read_copy e fi (?B fb) (x + r) (fb + 1) ?t'"
    by (subst read_copy.simps) (simp add: rd wr os r)
  also have "\<dots> = (Done, ?t')" using S by (intro read_copy_done) simp
  finally show ?thesis .
qed


lemma read_copy_all_blocks_aux:
  assumes we: "\<forall>p. \<not> write_error e p" and w0: "wpos t = 0"
    and S: "unat (size_f fi) = 1024 * n + r" and r: "r < 1024"
    and full: "\<forall>i < (if r = 0 then n else n + 1). block_count e fi i = Inr 1024"
  shows "read_copy e fi (auto_buf e 1024) 0 0 t =
           (Done, \<lparr> content = take (1024 * n + r)
                                (concat (map (file_block e fi) [0..<(if r = 0 then n else n + 1)]))
                              @ drop (1024 * n + r) (content t),
                    wpos = 1024 * n + r \<rparr>)"
proof -
  let ?B = "file_block e fi"
  let ?A = "concat (map ?B [0..<n])"
  have fulln: "\<forall>i. 0 \<le> i \<and> i < 0 + n \<longrightarrow> block_count e fi i = Inr 1024"
    using full by auto
  have lenB: "\<forall>i. 0 \<le> i \<and> i < 0 + n \<longrightarrow> length (?B i) = 1024"
    using fulln inode_block_read_full(2)[of e fi _ "[]"] by simp
  have lc: "length ?A = 1024 * n"
    using length_concat_blocks[OF lenB] by simp
  let ?tn = "\<lparr> content = ?A @ drop (1024 * n) (content t), wpos = 1024 * n \<rparr>"
  have pre: "0 + 1024 * n \<le> unat (size_f fi)" "length (auto_buf e 1024) \<le> 1024"
    "0 \<le> length (content t)"
    using S by simp_all
  from read_copy_steps[of 0 n e fi 0 "auto_buf e 1024" t, OF fulln pre(1,2) we w0 pre(3)]
  obtain buf' where b: "length buf' \<le> 1024"
    and run: "read_copy e fi (auto_buf e 1024) 0 0 t = read_copy e fi buf' (1024 * n) n ?tn"
    by auto
  show ?thesis
  proof (cases "r = 0")
    case True
    have "read_copy e fi buf' (1024 * n) n ?tn = (Done, ?tn)"
      using S True by (intro read_copy_done) simp
    moreover have "take (1024 * n) ?A = ?A"
      using lc by simp
    ultimately show ?thesis
      unfolding run using True by simp
  next
    case False
    then have rpos: "0 < r" by simp
    have cnt: "block_count e fi n = Inr 1024" using full False by simp
    have len: "length (?B n) = 1024" using inode_block_read_full(2)[OF cnt b] .
    have w: "wpos ?tn = 1024 * n" by simp
    have xl: "1024 * n \<le> length (content ?tn)" using lc by simp
    have fin: "read_copy e fi buf' (1024 * n) n ?tn =
        (Done, \<lparr> content = take (1024 * n) (content ?tn) @ take r (?B n)
                              @ drop (1024 * n + r) (content ?tn),
                    wpos = 1024 * n + r \<rparr>)"
      by (rule read_copy_last_block[OF we w xl S rpos r cnt b])
    have t1: "take (1024 * n) (content ?tn) = ?A"
      using lc by simp
    have t2: "drop (1024 * n + r) (content ?tn) = drop (1024 * n + r) (content t)"
      using lc by (simp add: add.commute)
    have t3: "take (1024 * n + r) (concat (map ?B [0..<n + 1])) = ?A @ take r (?B n)"
      using lc by simp
    show ?thesis
      unfolding run fin t1 t2 using False t3 by simp
  qed
qed

lemma ceil_blocks_aux:
  fixes n r :: nat
  assumes "r < 1024"
  shows "(1024 * n + r + 1023) div 1024 = (if r = 0 then n else n + 1)"
proof (cases "r = 0")
  case True
  then show ?thesis by simp
next
  case False
  then obtain q where q: "r = Suc q" by (cases r) auto
  have "1024 * n + r + 1023 = q + (n + 1) * 1024" using q by simp
  moreover have "q < 1024" using assms q by simp
  ultimately show ?thesis using False by simp
qed

lemma ceil_blocks:
  "(if (s::nat) mod 1024 = 0 then s div 1024 else s div 1024 + 1) = (s + 1023) div 1024"
proof -
  have "(1024 * (s div 1024) + s mod 1024 + 1023) div 1024 =
        (if s mod 1024 = 0 then s div 1024 else s div 1024 + 1)"
    by (rule ceil_blocks_aux) simp
  then show ?thesis by simp
qed

lemma read_copy_all_blocks:
  assumes we: "\<forall>p. \<not> write_error e p" and w0: "wpos t = 0"
    and full: "\<forall>i < (unat (size_f fi) + 1023) div 1024. block_count e fi i = Inr 1024"
  shows "read_copy e fi (auto_buf e 1024) 0 0 t =
           (Done, \<lparr> content = take (unat (size_f fi))
                                (concat (map (file_block e fi) [0..<(unat (size_f fi) + 1023) div 1024]))
                              @ drop (unat (size_f fi)) (content t),
                    wpos = unat (size_f fi) \<rparr>)"
proof -
  define s where "s = unat (size_f fi)"
  define n where "n = s div 1024"
  define r where "r = s mod 1024"
  have S: "unat (size_f fi) = 1024 * n + r" by (simp add: s_def n_def r_def)
  have r: "r < 1024" by (simp add: r_def)
  have c: "(if r = 0 then n else n + 1) = (s + 1023) div 1024"
    unfolding n_def r_def by (rule ceil_blocks)
  have full': "\<forall>i < (if r = 0 then n else n + 1). block_count e fi i = Inr 1024"
    unfolding c using full by (simp add: s_def)
  have sback: "1024 * n + r = s" by (simp add: s_def n_def r_def)
  show ?thesis
    using read_copy_all_blocks_aux[OF we w0 S r full']
    unfolding c sback unfolding s_def .
qed

lemma read_copy_eof:
  assumes "\<forall>p. \<not> write_error e p"
    and "x + 1024 * m < unat (size_f fi)"
    and "\<forall>i. fb \<le> i \<and> i < fb + m \<longrightarrow> (\<exists>c. block_count e fi i = Inr c \<and> 0 < c)"
    and "block_count e fi (fb + m) = Inr 0"
  shows "fst (read_copy e fi buf x fb t) = UnexpectedEOF"
  using assms
proof (induction m arbitrary: buf x fb t)
  case 0
  obtain b tr where rd: "inode_block_read e fb fi buf = (Inr 0, b, tr)"
    using inode_block_read_fst[of e fb fi buf] "0.prems"(4)
    by (metis add_0_right prod.collapse)
  have "x < unat (size_f fi)" using "0.prems"(2) by simp
  then show ?case by (subst read_copy.simps) (simp add: rd Let_def)
next
  case (Suc m)
  from Suc.prems(3) obtain c where c: "block_count e fi fb = Inr c" "0 < c" by auto
  obtain b tr where rd: "inode_block_read e fb fi buf = (Inr c, b, tr)"
    using inode_block_read_fst[of e fb fi buf] c(1) by (metis prod.collapse)
  have os: "x < unat (size_f fi)" "\<not> unat (size_f fi) - x < 1024"
    using Suc.prems(2) by simp_all
  obtain t' where wr: "sys_write e t (take 1024 b) = Some t'"
    using Suc.prems(1) by (simp add: sys_write_def)
  have step: "read_copy e fi buf x fb t = read_copy e fi b (x + 1024) (fb + 1) t'"
    using c(2) by (subst read_copy.simps) (simp add: rd wr os)
  have "fst (read_copy e fi b (x + 1024) (fb + 1) t') = UnexpectedEOF"
  proof (rule Suc.IH[OF Suc.prems(1)])
    show "x + 1024 + 1024 * m < unat (size_f fi)" using Suc.prems(2) by simp
    show "\<forall>i. fb + 1 \<le> i \<and> i < fb + 1 + m \<longrightarrow> (\<exists>c. block_count e fi i = Inr c \<and> 0 < c)"
      using Suc.prems(3) by simp
    show "block_count e fi (fb + 1 + m) = Inr 0" using Suc.prems(4) by simp
  qed
  then show ?case by (simp only: step)
qed

lemma sys_write_frame:
  assumes "sys_write e t d = Some t1" "wpos t \<le> length (content t)"
  shows "wpos t1 = wpos t + length d"
    and "length (content t1) = max (length (content t)) (wpos t + length d)"
    and "wpos t + length d \<le> w \<Longrightarrow> drop w (content t1) = drop w (content t)"
    and "wpos t1 \<le> length (content t1)"
  using assms by (auto simp: sys_write_def split: if_splits)

lemma read_copy_frame:
  assumes "read_copy e fi buf x fb t = (r, t')" "wpos t = x" "x \<le> length (content t)"
    and "length buf = 1024" "x \<le> unat (size_f fi)"
  shows "x \<le> wpos t' \<and> wpos t' \<le> unat (size_f fi) \<and>
         length (content t') = max (length (content t)) (wpos t') \<and>
         drop (wpos t') (content t') = drop (wpos t') (content t) \<and>
         (r = Done \<longrightarrow> wpos t' = unat (size_f fi))"
  using assms
proof (induction "unat (size_f fi) - x" arbitrary: x buf fb t rule: less_induct)
  case less
  let ?S = "unat (size_f fi)"
  show ?case
  proof (cases "x < ?S")
    case False
    then have "read_copy e fi buf x fb t = (Done, t)" by (rule read_copy_done)
    with less.prems False show ?thesis by auto
  next
    case True
    define osize where "osize = (if ?S - x < 1024 then ?S - x else 1024)"
    have os: "0 < osize" "osize \<le> 1024" "x + osize \<le> ?S"
      using True by (auto simp: osize_def)
    obtain rv b tr where rd: "inode_block_read e fb fi buf = (rv, b, tr)"
      by (metis prod.collapse)
    have lb: "length b = 1024"
      using length_inode_block_read[OF less.prems(4), of e fb fi] rd by simp
    have unf: "read_copy e fi buf x fb t =
        (case rv of Inl err \<Rightarrow> (Failed err, t)
         | Inr n \<Rightarrow> if n = 0 then (UnexpectedEOF, t)
                    else (case sys_write e t (take osize b) of
                            None \<Rightarrow> (Failed IOError, t)
                          | Some t1 \<Rightarrow> read_copy e fi b (x + osize) (fb + 1) t1))"
    proof -
      have od: "(if ?S - x < 1024 then ?S - x else 1024) = osize" by (simp add: osize_def)
      show ?thesis
        using True by (subst read_copy.simps) (simp add: rd Let_def od split: sum.splits)
    qed
    show ?thesis
    proof (cases "\<exists>n t1. rv = Inr n \<and> n \<noteq> 0 \<and> sys_write e t (take osize b) = Some t1")
      case False
      then have "t' = t \<and> r \<noteq> Done"
        using less.prems(1) unfolding unf
        by (auto split: sum.splits option.splits if_splits)
      then show ?thesis using less.prems True by auto
    next
      case True
      then obtain n t1 where n: "rv = Inr n" "n \<noteq> 0"
        and wr: "sys_write e t (take osize b) = Some t1" by auto
      have ld: "length (take osize b) = osize" using lb os by simp
      have wl: "wpos t \<le> length (content t)" using less.prems by simp
      note fr = sys_write_frame[OF wr wl, unfolded ld less.prems(2)]
      have rec: "read_copy e fi b (x + osize) (fb + 1) t1 = (r, t')"
        using less.prems(1) unfolding unf by (simp add: n wr)
      have m: "?S - (x + osize) < ?S - x" using os \<open>x < ?S\<close> by simp
      have ih: "x + osize \<le> wpos t' \<and> wpos t' \<le> ?S \<and>
         length (content t') = max (length (content t1)) (wpos t') \<and>
         drop (wpos t') (content t') = drop (wpos t') (content t1) \<and>
         (r = Done \<longrightarrow> wpos t' = ?S)"
        using less.hyps[OF m rec fr(1) _ lb os(3)] fr(1,4) by simp
      then have w: "x + osize \<le> wpos t'" by simp
      have "drop (wpos t') (content t1) = drop (wpos t') (content t)"
        using fr(3)[OF w] .
      moreover have "max (length (content t1)) (wpos t') = max (length (content t)) (wpos t')"
        using fr(2) w by simp
      ultimately show ?thesis using ih by simp
    qed
  qed
qed

text \<open>
  An inode of 1030 bytes whose two direct blocks are blocks 3 and 1 of the four-block
  image.
\<close>

definition cnode :: Inode where
  "cnode = \<lparr> mode = 0x1A4, type = INODE_FT_FILE, nlink = 1, uid = 0, gid = 0, size_f = 1030,
             addr = [3, 1, 0, 0, 0, 0, 0, 0, 0, 0, 0, 0, 0], atime = 0, mtime = 0, ctime = 0 \<rparr>"

lemma bdemo_cnode_blocks:
  "inode_block_read bdemo 0 cnode (auto_buf bdemo 1024) = (Inr 1024, replicate 1024 0x42, [3])"
  "inode_block_read bdemo (Suc 0) cnode (auto_buf bdemo 1024) =
     (Inr 1024, [0, 0, 0, 0, 0, 0, 0, 3] @ replicate 1016 0, [1])"
  by (simp_all add: inode_block_read_direct cnode_def final_read_def bdemo_block3 bdemo_block1)

lemma bdemo_bnode_blocks:
  "inode_block_read bdemo 0 bnode (auto_buf bdemo 1024) = (Inr 1024, replicate 1024 0x42, [3])"
  "inode_block_read bdemo (Suc 0) bnode (auto_buf bdemo 1024) = (Inr 0, auto_buf bdemo 1024, [])"
  by (simp_all add: inode_block_read_direct bnode_def final_read_def bdemo_block3)

text \<open>
  C4: when every logical block below \<open>ceil(S / 1024)\<close> is delivered in full and no
  write fails, the copy loop ends with \<open>Done\<close> and has written exactly the first
  \<open>S\<close> bytes of the file's blocks in order (bytes of the target beyond \<open>S\<close> are
  not touched); and when blocks \<open>0..k-1\<close> deliver data, \<open>1024 * k < S\<close> and block
  \<open>k\<close> is at end of data, the loop fails with "Unexpected end-of-file".
\<close>

theorem read_copy_extracts:
  "((\<forall>p. \<not> write_error e p) \<and> wpos t = 0 \<and>
    (\<forall>i < (unat (size_f fi) + 1023) div 1024. block_count e fi i = Inr 1024)
    \<longrightarrow> read_copy e fi (auto_buf e 1024) 0 0 t =
          (Done, \<lparr> content = take (unat (size_f fi))
                               (concat (map (file_block e fi) [0..<(unat (size_f fi) + 1023) div 1024]))
                             @ drop (unat (size_f fi)) (content t),
                   wpos = unat (size_f fi) \<rparr>)) \<and>
   ((\<forall>p. \<not> write_error e p) \<and> 1024 * k < unat (size_f fi) \<and>
    (\<forall>i < k. \<exists>c. block_count e fi i = Inr c \<and> 0 < c) \<and> block_count e fi k = Inr 0
    \<longrightarrow> fst (read_copy e fi (auto_buf e 1024) 0 0 t) = UnexpectedEOF)"
proof (intro conjI impI)
  assume a: "(\<forall>p. \<not> write_error e p) \<and> wpos t = 0 \<and>
    (\<forall>i < (unat (size_f fi) + 1023) div 1024. block_count e fi i = Inr 1024)"
  then show "read_copy e fi (auto_buf e 1024) 0 0 t =
          (Done, \<lparr> content = take (unat (size_f fi))
                               (concat (map (file_block e fi) [0..<(unat (size_f fi) + 1023) div 1024]))
                             @ drop (unat (size_f fi)) (content t),
                   wpos = unat (size_f fi) \<rparr>)"
    by (intro read_copy_all_blocks) simp_all
next
  assume a: "(\<forall>p. \<not> write_error e p) \<and> 1024 * k < unat (size_f fi) \<and>
    (\<forall>i < k. \<exists>c. block_count e fi i = Inr c \<and> 0 < c) \<and> block_count e fi k = Inr 0"
  show "fst (read_copy e fi (auto_buf e 1024) 0 0 t) = UnexpectedEOF"
  proof (rule read_copy_eof[of e 0 k fi 0])
    show "\<forall>p. \<not> write_error e p" using a by simp
    show "0 + 1024 * k < unat (size_f fi)" using a by simp
    show "\<forall>i. 0 \<le> i \<and> i < 0 + k \<longrightarrow> (\<exists>c. block_count e fi i = Inr c \<and> 0 < c)" using a by simp
    show "block_count e fi (0 + k) = Inr 0" using a by simp
  qed
qed

theorem read_copy_extracts_witness:
  "write_error bdemo = (\<lambda>p. False) \<and> wpos \<lparr> content = [], wpos = 0 \<rparr> = 0 \<and>
   (unat (size_f cnode) + 1023) div 1024 = 2 \<and>
   block_count bdemo cnode 0 = Inr 1024 \<and> block_count bdemo cnode 1 = Inr 1024 \<and>
   read_copy bdemo cnode (auto_buf bdemo 1024) 0 0 \<lparr> content = [], wpos = 0 \<rparr> =
     (Done, \<lparr> content = replicate 1024 0x42 @ [0, 0, 0, 0, 0, 0], wpos = 1030 \<rparr>) \<and>
   1024 * 1 < unat (size_f bnode) \<and>
   block_count bdemo bnode 0 = Inr 1024 \<and> block_count bdemo bnode 1 = Inr 0 \<and>
   fst (read_copy bdemo bnode (auto_buf bdemo 1024) 0 0 \<lparr> content = [], wpos = 0 \<rparr>) = UnexpectedEOF"
proof -
  have we: "\<forall>p. \<not> write_error bdemo p" by (simp add: bdemo_def)
  have we': "write_error bdemo = (\<lambda>p. False)" by (simp add: bdemo_def)
  have n: "(unat (size_f cnode) + 1023) div 1024 = 2" by (simp add: cnode_def)
  have c: "block_count bdemo cnode 0 = Inr 1024" "block_count bdemo cnode 1 = Inr 1024"
    "block_count bdemo bnode 0 = Inr 1024"
    by (simp_all add: block_count_def bdemo_cnode_blocks bdemo_bnode_blocks)
  have full: "\<forall>i < (unat (size_f cnode) + 1023) div 1024. block_count bdemo cnode i = Inr 1024"
    unfolding n using c by (auto simp: less_2_cases_iff)
  have fb: "file_block bdemo cnode 0 = replicate 1024 0x42"
    "file_block bdemo cnode (Suc 0) = [0, 0, 0, 0, 0, 0, 0, 3] @ replicate 1016 0"
    by (simp_all add: file_block_def bdemo_cnode_blocks)
  have s: "unat (size_f cnode) = 1030" by (simp add: cnode_def)
  have k: "1024 * 1 < unat (size_f bnode)" by (simp add: bnode_def)
  have pos: "\<forall>i < 1. \<exists>c. block_count bdemo bnode i = Inr c \<and> 0 < c"
    using c by simp
  have eof: "block_count bdemo bnode 1 = Inr 0"
    by (simp add: block_count_def bdemo_bnode_blocks)
  have up: "[0..<2] = [0, Suc 0]" by (simp add: upt_conv_Cons)
  show ?thesis
    using read_copy_extracts[of bdemo "\<lparr> content = [], wpos = 0 \<rparr>" cnode 1 ]
      read_copy_extracts[of bdemo "\<lparr> content = [], wpos = 0 \<rparr>" bnode 1] we we' full k pos eof c
    by (simp add: n s fb up)
qed


section \<open>The sample image evaluated\<close>

text \<open>
  The inodes 2, 10 and 42 of the sample image, its three data blocks, and the
  directory scans, lookups and path resolutions on it.
\<close>

definition sample_inode :: "u16 \<Rightarrow> u16 \<Rightarrow> u32 \<Rightarrow> u32 \<Rightarrow> Inode" where
  "sample_inode m t sz blk =
     \<lparr> mode = m, type = t, nlink = 1, uid = 3, gid = 4, size_f = sz,
       addr = [blk, 0, 0, 0, 0, 0, 0, 0, 0, 0, 0, 0, 0],
       atime = 0x5D000001, mtime = 0x5D000002, ctime = 0x5D000003 \<rparr>"

lemma inode_record_demo:
  "inode_record demo 2 = inode_bytes dir_mode 32 5"
  "inode_record demo 10 = inode_bytes dir_mode 32 6"
  "inode_record demo 42 = inode_bytes file_mode 5 7"
  by (simp_all add: inode_record_def demo_def demo_image_def inode_bytes_def dir_mode_def
        file_mode_def dirent_bytes_def bytes_of_def)

lemma claimed_inode_demo:
  "claimed_inode (inode_bytes dir_mode 32 5) = sample_inode 0x1ED INODE_FT_DIR 32 5"
  "claimed_inode (inode_bytes dir_mode 32 6) = sample_inode 0x1ED INODE_FT_DIR 32 6"
  "claimed_inode (inode_bytes file_mode 5 7) = sample_inode 0x1A4 INODE_FT_FILE 5 7"
  by (simp_all add: claimed_inode_def inode_bytes_def dir_mode_def file_mode_def le16_def be16_def
        be24_def be32_def INODE_FT_DIR_def INODE_FT_FILE_def upt_conv_Cons nth_append
        sample_inode_def)

lemma demo_fields:
  "image demo = demo_image" "read_error demo p = False" "write_error demo q = False"
  by (simp_all add: demo_def)

lemma read_inode_demo:
  "read_inode demo 2 = Inr (sample_inode 0x1ED INODE_FT_DIR 32 5)"
  "read_inode demo 10 = Inr (sample_inode 0x1ED INODE_FT_DIR 32 6)"
  "read_inode demo 42 = Inr (sample_inode 0x1A4 INODE_FT_FILE 5 7)"
  using read_inode_in_image[of demo 2] read_inode_in_image[of demo 10]
    read_inode_in_image[of demo 42]
  by (simp_all add: inode_record_demo claimed_inode_demo length_demo_image demo_fields)

definition root_block :: "byte list" where
  "root_block = dirent_bytes 10 ''bin'' @ replicate 1008 0"

definition bin_block :: "byte list" where
  "bin_block = dirent_bytes 42 ''sh'' @ replicate 1008 0"

definition data_block :: "byte list" where
  "data_block = bytes_of ''hello'' @ replicate 1019 0"

lemma demo_blocks:
  assumes "length buf \<le> 1024"
  shows "disk_block_read demo 5 buf = (Inr 1024, root_block)"
    and "disk_block_read demo 6 buf = (Inr 1024, bin_block)"
    and "disk_block_read demo 7 buf = (Inr 1024, data_block)"
  using assms
  by (simp_all add: disk_block_read_def lseek_set_def sys_read_def fill_def demo_def
        demo_image_def inode_bytes_def dir_mode_def file_mode_def dirent_bytes_def bytes_of_def
        root_block_def bin_block_def data_block_def)

lemma length_sample_blocks [simp]:
  "length root_block = 1024" "length bin_block = 1024" "length data_block = 1024"
  by (simp_all add: root_block_def bin_block_def data_block_def dirent_bytes_def bytes_of_def)

lemma demo_inode_blocks:
  assumes "length buf \<le> 1024"
  shows "inode_block_read demo 0 (sample_inode m t sz 5) buf = (Inr 1024, root_block, [5])"
    and "inode_block_read demo 0 (sample_inode m t sz 6) buf = (Inr 1024, bin_block, [6])"
    and "inode_block_read demo 0 (sample_inode m t sz 7) buf = (Inr 1024, data_block, [7])"
  using assms
  by (simp_all add: inode_block_read_direct sample_inode_def final_read_def demo_blocks)

abbreviation "root_inode \<equiv> sample_inode 0x1ED INODE_FT_DIR 32 5"
abbreviation "bin_inode \<equiv> sample_inode 0x1ED INODE_FT_DIR 32 6"
abbreviation "sh_inode \<equiv> sample_inode 0x1A4 INODE_FT_FILE 5 7"

lemma sample_entries:
  "entry_inode root_block 0 = 0x0A00" "entry_inode root_block (Suc 0) = 0"
  "entry_inode bin_block 0 = 0x2A00" "entry_inode bin_block (Suc 0) = 0"
  "entry_name root_block 0 = bytes_of ''bin'' @ replicate 11 0"
  "entry_name bin_block 0 = bytes_of ''sh'' @ replicate 12 0"
  by (simp_all add: entry_inode_def entry_name_def hword_at_def le16_def root_block_def
        bin_block_def dirent_bytes_def bytes_of_def nth_append)

lemma sample_swaps: "swap_hword 0x0A00 = 10" "swap_hword 0x2A00 = 42"
  by (simp_all add: swap_hword_def)

lemma sample_types:
  "type (sample_inode m t sz blk) = t"
  "INODE_FT_FILE \<noteq> INODE_FT_DIR" "INODE_FT_DIR \<noteq> INODE_FT_FILE"
  by (simp_all add: sample_inode_def INODE_FT_FILE_def INODE_FT_DIR_def)

lemma sample_strncmp:
  "strncmp_eq (bytes_of ''bin'') (bytes_of ''bin'' @ replicate 11 0) 14"
  "strncmp_eq (bytes_of ''sh'') (bytes_of ''sh'' @ replicate 12 0) 14"
  "\<not> strncmp_eq (bytes_of ''nope'') (bytes_of ''sh'' @ replicate 12 0) 14"
  "\<not> strncmp_eq (bytes_of ''x'') (bytes_of ''sh'' @ replicate 12 0) 14"
  by (simp_all add: strncmp_eq_def c_str_def bytes_of_def)

lemma sample_read_scan:
  "read_scan demo ''bin'' root_block 0 = Matched (bin_inode, Some (bin_inode, 10), None)"
  "read_scan demo ''sh'' bin_block 0 = Matched (sh_inode, None, Some 42)"
  "read_scan demo ''nope'' bin_block 0 = Ended (Suc 0)"
  by (simp_all add: read_scan.simps sample_entries sample_swaps sample_strncmp read_inode_demo
        sample_types Let_def)

lemma sample_ls_scan:
  "ls_scan demo ''bin'' root_block 0 = Matched (Some (bin_inode, 10))"
  "ls_scan demo ''sh'' bin_block 0 = Matched None"
  "ls_scan demo ''nope'' bin_block 0 = Ended (Suc 0)"
  by (simp_all add: ls_scan.simps sample_entries sample_swaps sample_strncmp read_inode_demo
        sample_types Let_def)

lemma sample_paths:
  "strtok_all ''/bin/sh'' = [''bin'', ''sh'']"
  "strtok_all ''/bin/nope'' = [''bin'', ''nope'']"
  "strtok_all ''/bin/sh/x'' = [''bin'', ''sh'', ''x'']"
  by (simp_all add: strtok_all_def)

lemma sample_read_lookup:
  assumes "length buf \<le> 1024"
  shows "read_lookup demo ''bin'' root_inode 0 buf fi 0 = Inr (bin_inode, 0, root_block, 10, bin_inode, 0)"
    and "read_lookup demo ''sh'' bin_inode 0 buf fi 0 = Inr (bin_inode, 0, bin_block, 0, sh_inode, 42)"
    and "read_lookup demo ''nope'' bin_inode 0 buf fi 0 = Inr (bin_inode, 0, bin_block, 0, fi, 0)"
  using assms
  by (simp_all add: read_lookup.simps demo_inode_blocks sample_read_scan)

lemma sample_ls_lookup:
  assumes "length buf \<le> 1024"
  shows "ls_lookup demo ''bin'' root_inode 0 buf = Inr (bin_inode, 0, root_block, 10)"
    and "ls_lookup demo ''sh'' bin_inode 0 buf = Inr (bin_inode, 0, bin_block, 0)"
    and "ls_lookup demo ''nope'' bin_inode 0 buf = Inr (bin_inode, 0, bin_block, 0)"
  using assms
  by (simp_all add: ls_lookup.simps demo_inode_blocks sample_ls_scan)

lemma sample_read_resolve:
  "read_resolve demo ''/bin/sh'' = Inr (sh_inode, 42)"
  "read_resolve demo ''/bin/nope'' = Inl NotFound"
  "read_resolve demo ''/bin/sh/x'' = Inl FoundFileEarly"
  by (simp_all add: read_resolve_def read_inode_demo sample_paths sample_read_lookup)

lemma sample_ls_resolve:
  "ls_resolve demo ''/bin/sh'' = Inl NotFound"
  "ls_resolve demo ''/bin/nope'' = Inl NotFound"
  "ls_resolve demo ''/bin/sh/x'' = Inl NotFound"
  "ls_resolve demo ''/bin'' = Inr (bin_inode, 0, root_block)"
  by (simp_all add: ls_resolve_def read_inode_demo sample_paths sample_ls_lookup strtok_all_def)

section \<open>The target file\<close>

text \<open>A host with one file, \<open>out\<close>, of ten bytes.\<close>

definition sample_host :: host where
  "sample_host = \<lparr> files = (\<lambda>name. if name = ''out'' then Some (bytes_of ''0123456789'') else None),
                    denied = (\<lambda>_. False) \<rparr>"

lemma sample_copy:
  "read_copy demo sh_inode (auto_buf demo 1024) 0 0 \<lparr> content = bytes_of ''0123456789'', wpos = 0 \<rparr>
     = (Done, \<lparr> content = bytes_of ''hello56789'', wpos = 5 \<rparr>)"
proof -
  have s: "unat (size_f sh_inode) = 5" by (simp add: sample_inode_def)
  have "read_copy demo sh_inode (auto_buf demo 1024) 0 0 \<lparr> content = bytes_of ''0123456789'', wpos = 0 \<rparr>
      = read_copy demo sh_inode data_block 5 1 \<lparr> content = bytes_of ''hello56789'', wpos = 5 \<rparr>"
    by (subst read_copy.simps)
       (simp add: s demo_inode_blocks sys_write_def demo_fields data_block_def bytes_of_def)
  also have "\<dots> = (Done, \<lparr> content = bytes_of ''hello56789'', wpos = 5 \<rparr>)"
    by (rule read_copy_done) (simp add: s)
  finally show ?thesis .
qed

lemma sample_unix_read:
  "unix_read demo sample_host ''/bin/sh'' ''out'' =
     (Done, store sample_host ''out'' \<lparr> content = bytes_of ''hello56789'', wpos = 5 \<rparr>)"
  by (simp add: unix_read_def open_creat_def sample_host_def sample_read_resolve sample_copy)

text \<open>
  C10: the target is opened without truncation.  When the path resolves to a file
  inode of size \<open>S\<close>, the target exists with \<open>L > S\<close> bytes and \<^verbatim>\<open>unix_read\<close> ends
  with \<open>Done\<close>, the target afterwards still has \<open>L\<close> bytes and its bytes from
  position \<open>S\<close> on are the old ones; it is longer than the extracted file.
\<close>

theorem unix_read_keeps_tail:
  assumes "files h filename = Some old"
    and "read_resolve e path = Inr (fi, num)"
    and "unix_read e h path filename = (Done, h')"
    and "unat (size_f fi) < length old"
  shows "\<exists>new. files h' filename = Some new \<and> length new = length old \<and>
           drop (unat (size_f fi)) new = drop (unat (size_f fi)) old \<and>
           length new \<noteq> unat (size_f fi)"
proof -
  let ?t = "\<lparr> content = old, wpos = 0 \<rparr>"
  have op: "open_creat h filename = Some ?t"
    using assms(1,3) by (auto simp: unix_read_def open_creat_def split: if_splits)
  obtain r t' where rc: "read_copy e fi (auto_buf e 1024) 0 0 ?t = (r, t')"
    by (metis prod.collapse)
  have res: "r = Done \<and> h' = store h filename t'"
    using assms(2,3) op rc by (auto simp: unix_read_def split: if_splits)
  have fr: "length (content t') = max (length old) (unat (size_f fi))"
    "drop (unat (size_f fi)) (content t') = drop (unat (size_f fi)) old"
    using read_copy_frame[OF rc] res by auto
  show ?thesis
    using res fr assms(4) by (intro exI[of _ "content t'"]) (simp add: store_def)
qed

theorem unix_read_keeps_tail_witness:
  "files sample_host ''out'' = Some (bytes_of ''0123456789'') \<and>
   read_resolve demo ''/bin/sh'' = Inr (sh_inode, 42) \<and>
   unix_read demo sample_host ''/bin/sh'' ''out'' =
     (Done, store sample_host ''out'' \<lparr> content = bytes_of ''hello56789'', wpos = 5 \<rparr>) \<and>
   unat (size_f sh_inode) < length (bytes_of ''0123456789'') \<and>
   files (store sample_host ''out'' \<lparr> content = bytes_of ''hello56789'', wpos = 5 \<rparr>) ''out''
     = Some (bytes_of ''hello56789'') \<and>
   drop 5 (bytes_of ''hello56789'') = drop 5 (bytes_of ''0123456789'')"
proof -
  have a: "files sample_host ''out'' = Some (bytes_of ''0123456789'')"
    by (simp add: sample_host_def)
  have d: "unat (size_f sh_inode) < length (bytes_of ''0123456789'')"
    by (simp add: sample_inode_def bytes_of_def)
  from unix_read_keeps_tail[OF a sample_read_resolve(1) sample_unix_read d]
  show ?thesis
    using a d sample_read_resolve(1) sample_unix_read
    by (simp add: store_def bytes_of_def)
qed


section \<open>Path resolution\<close>

text \<open>
  The scenario of C6: inode 2 is the root, inodes 10 and 42 are a directory and a
  regular file; block 0 of the root is read in full and begins with the entry
  \<open>bin\<close> for inode 10; block 0 of inode 10 is read in full and begins with the
  entry \<open>sh\<close> for inode 42, followed by an unused slot.
\<close>

definition bin_sh_scenario ::
  "env \<Rightarrow> Inode \<Rightarrow> Inode \<Rightarrow> Inode \<Rightarrow> byte list \<Rightarrow> byte list \<Rightarrow> bool" where
  "bin_sh_scenario e root bin sh rb bb \<longleftrightarrow>
     read_inode e 2 = Inr root \<and> read_inode e 10 = Inr bin \<and> read_inode e 42 = Inr sh \<and>
     type bin = INODE_FT_DIR \<and> type sh = INODE_FT_FILE \<and>
     block_count e root 0 = Inr 1024 \<and> file_block e root 0 = rb \<and>
     block_count e bin 0 = Inr 1024 \<and> file_block e bin 0 = bb \<and>
     entry_inode rb 0 = 0x0A00 \<and> entry_name rb 0 = bytes_of ''bin'' @ replicate 11 0 \<and>
     entry_inode bb 0 = 0x2A00 \<and> entry_name bb 0 = bytes_of ''sh'' @ replicate 12 0 \<and>
     entry_inode bb 1 = 0"

lemma full_block_read:
  assumes "block_count e ino i = Inr 1024" "length buf \<le> 1024"
  shows "\<exists>tr. inode_block_read e i ino buf = (Inr 1024, file_block e ino i, tr)"
  using inode_block_read_fst[of e i ino buf] inode_block_read_full(1)[OF assms] assms(1)
  by (metis prod.collapse)

lemma scenario_scans:
  assumes "bin_sh_scenario e root bin sh rb bb"
  shows "read_scan e ''bin'' rb 0 = Matched (bin, Some (bin, 10), None)"
    and "read_scan e ''sh'' bb 0 = Matched (sh, None, Some 42)"
    and "read_scan e ''nope'' bb 0 = Ended (Suc 0)"
    and "ls_scan e ''bin'' rb 0 = Matched (Some (bin, 10))"
    and "ls_scan e ''sh'' bb 0 = Matched None"
    and "ls_scan e ''nope'' bb 0 = Ended (Suc 0)"
  using assms
  by (simp_all add: bin_sh_scenario_def read_scan.simps ls_scan.simps sample_swaps
        sample_strncmp Let_def sample_types)

lemma scenario_lookups:
  assumes s: "bin_sh_scenario e root bin sh rb bb" and b: "length buf \<le> 1024"
  shows "read_lookup e ''bin'' root 0 buf fi 0 = Inr (bin, 0, rb, 10, bin, 0)"
    and "read_lookup e ''sh'' bin 0 buf fi 0 = Inr (bin, 0, bb, 0, sh, 42)"
    and "read_lookup e ''nope'' bin 0 buf fi 0 = Inr (bin, 0, bb, 0, fi, 0)"
    and "ls_lookup e ''bin'' root 0 buf = Inr (bin, 0, rb, 10)"
    and "ls_lookup e ''sh'' bin 0 buf = Inr (bin, 0, bb, 0)"
    and "ls_lookup e ''nope'' bin 0 buf = Inr (bin, 0, bb, 0)"
proof -
  have c: "block_count e root 0 = Inr 1024" "file_block e root 0 = rb"
    "block_count e bin 0 = Inr 1024" "file_block e bin 0 = bb"
    using s by (simp_all add: bin_sh_scenario_def)
  obtain tr1 where r: "inode_block_read e 0 root buf = (Inr 1024, rb, tr1)"
    using full_block_read[OF c(1) b] c(2) by auto
  obtain tr2 where n: "inode_block_read e 0 bin buf = (Inr 1024, bb, tr2)"
    using full_block_read[OF c(3) b] c(4) by auto
  note sc = scenario_scans[OF s]
  show "read_lookup e ''bin'' root 0 buf fi 0 = Inr (bin, 0, rb, 10, bin, 0)"
    by (simp add: read_lookup.simps r sc)
  show "read_lookup e ''sh'' bin 0 buf fi 0 = Inr (bin, 0, bb, 0, sh, 42)"
    by (simp add: read_lookup.simps n sc)
  show "read_lookup e ''nope'' bin 0 buf fi 0 = Inr (bin, 0, bb, 0, fi, 0)"
    by (simp add: read_lookup.simps n sc)
  show "ls_lookup e ''bin'' root 0 buf = Inr (bin, 0, rb, 10)"
    by (simp add: ls_lookup.simps r sc)
  show "ls_lookup e ''sh'' bin 0 buf = Inr (bin, 0, bb, 0)"
    by (simp add: ls_lookup.simps n sc)
  show "ls_lookup e ''nope'' bin 0 buf = Inr (bin, 0, bb, 0)"
    by (simp add: ls_lookup.simps n sc)
qed

text \<open>
  C6, as stated, fails for the listing: on the sample image the walk of
  \<^verbatim>\<open>unix_ls\<close> ends \<open>/bin/sh\<close> with "No such file or directory", not with inode 42;
  \<^verbatim>\<open>unix_ls\<close> follows directories only.
\<close>

theorem unix_ls_file_component_counterexample:
  "ls_resolve demo ''/bin/sh'' = Inl NotFound \<and> unix_ls demo ''/bin/sh'' = (NotFound, [])"
  by (simp add: unix_ls_def sample_ls_resolve)

text \<open>
  C6, amended: both walks start at inode 2.  In the scenario the extraction's
  walk ends \<open>/bin/sh\<close> with inode 42, \<open>/bin/nope\<close> with "No such file or
  directory" and \<open>/bin/sh/x\<close> with "found regular file early"; the listing's walk
  ends all three with "No such file or directory".
\<close>

theorem resolve_bin_sh:
  assumes "bin_sh_scenario e root bin sh rb bb"
  shows "read_resolve e ''/bin/sh'' = Inr (sh, 42) \<and>
         read_resolve e ''/bin/nope'' = Inl NotFound \<and>
         read_resolve e ''/bin/sh/x'' = Inl FoundFileEarly \<and>
         ls_resolve e ''/bin/sh'' = Inl NotFound \<and>
         ls_resolve e ''/bin/nope'' = Inl NotFound \<and>
         ls_resolve e ''/bin/sh/x'' = Inl NotFound"
proof -
  have r: "read_inode e 2 = Inr root"
    using assms by (simp add: bin_sh_scenario_def)
  have "block_count e root 0 = Inr 1024" "file_block e root 0 = rb"
    using assms by (simp_all add: bin_sh_scenario_def)
  then have l: "length rb \<le> 1024"
    using inode_block_read_full(2)[of e root 0 "[]"] by simp
  have a: "length (auto_buf e 1024) \<le> 1024" by simp
  note lk = scenario_lookups[OF assms a] scenario_lookups[OF assms l]
  show ?thesis
    by (simp add: read_resolve_def ls_resolve_def r sample_paths lk)
qed

theorem resolve_bin_sh_witness:
  "bin_sh_scenario demo root_inode bin_inode sh_inode root_block bin_block \<and>
   read_resolve demo ''/bin/sh'' = Inr (sh_inode, 42) \<and>
   read_resolve demo ''/bin/nope'' = Inl NotFound \<and>
   read_resolve demo ''/bin/sh/x'' = Inl FoundFileEarly \<and>
   ls_resolve demo ''/bin/sh'' = Inl NotFound \<and>
   ls_resolve demo ''/bin/nope'' = Inl NotFound \<and>
   ls_resolve demo ''/bin/sh/x'' = Inl NotFound"
proof -
  have s: "bin_sh_scenario demo root_inode bin_inode sh_inode root_block bin_block"
    by (simp add: bin_sh_scenario_def read_inode_demo sample_types demo_inode_blocks
          sample_entries block_count_def file_block_def)
  from resolve_bin_sh[OF s] s show ?thesis by simp
qed

section \<open>Over-long path components\<close>

text \<open>
  What the walk does with a component of more than 14 bytes: the current
  directory block is read first, and the length is tested only inside the entry
  loop, that is, when the block's first entry has a non-zero inode number.
\<close>

definition long_component_outcome :: "env \<Rightarrow> Inode \<Rightarrow> nat \<Rightarrow> byte list \<Rightarrow> outcome" where
  "long_component_outcome e dir_inode dirblock dir_buffer =
     (case inode_block_read e dirblock dir_inode dir_buffer of
        (Inl err, b, tr) \<Rightarrow> Failed err
      | (Inr n, b, tr) \<Rightarrow>
          if n = 0 then EndOfData
          else if entry_inode b 0 \<noteq> 0 then NameTooLong else NotFound)"

lemma long_scans:
  assumes "14 < length p"
  shows "ls_scan e p b 0 = (if entry_inode b 0 \<noteq> 0 then Return NameTooLong else Ended 0)"
    and "read_scan e p b 0 = (if entry_inode b 0 \<noteq> 0 then Return NameTooLong else Ended 0)"
  using assms by (simp_all add: ls_scan.simps read_scan.simps)

text \<open>
  An image whose root directory block holds no entry.
\<close>

definition hollow_image :: "byte list" where
  "hollow_image = replicate 2112 0 @ inode_bytes dir_mode 32 5 @ replicate 6016 0"

definition hollow :: env where
  "hollow = \<lparr> image = hollow_image, read_error = (\<lambda>_. False), write_error = (\<lambda>_. False),
              junk = (\<lambda>_. 0xEE) \<rparr>"

lemma hollow_fields:
  "image hollow = hollow_image" "read_error hollow p = False" "length hollow_image = 8192"
  by (simp_all add: hollow_def hollow_image_def inode_bytes_def dir_mode_def)

lemma hollow_root: "read_inode hollow 2 = Inr root_inode"
proof -
  have "inode_record hollow 2 = inode_bytes dir_mode 32 5"
    by (simp add: inode_record_def hollow_fields hollow_image_def inode_bytes_def dir_mode_def)
  then show ?thesis
    using read_inode_in_image[of hollow 2] by (simp add: hollow_fields claimed_inode_demo)
qed

lemma hollow_block:
  "length buf \<le> 1024 \<Longrightarrow>
     inode_block_read hollow 0 root_inode buf = (Inr 1024, replicate 1024 0, [5])"
  by (simp add: inode_block_read_direct sample_inode_def final_read_def disk_block_read_def
        lseek_set_def sys_read_def fill_def hollow_fields hollow_image_def inode_bytes_def
        dir_mode_def)

lemma hollow_entry: "entry_inode (replicate 1024 0) 0 = 0"
  by (simp add: entry_inode_def hword_at_def le16_def)

lemma long_path: "strtok_all ''/a_name_longer_than_14'' = [''a_name_longer_than_14'']"
  by (simp add: strtok_all_def)

text \<open>
  C9, as stated, fails: in a directory whose block begins with a zero-inode entry an
  over-long component ends with the ordinary "No such file or directory (in image,
  path search)" and \<open>-1\<close>, not with the over-long outcome and \<open>0\<close>.
\<close>

theorem long_component_empty_block_counterexample:
  "ls_resolve hollow ''/a_name_longer_than_14'' = Inl NotFound \<and>
   read_resolve hollow ''/a_name_longer_than_14'' = Inl NotFound \<and>
   unix_ls hollow ''/a_name_longer_than_14'' = (NotFound, []) \<and>
   retcode NotFound = - 1 \<and> retcode NameTooLong = 0"
  by (simp add: unix_ls_def ls_resolve_def read_resolve_def hollow_root long_path
        ls_lookup.simps read_lookup.simps hollow_block long_scans hollow_entry)

text \<open>
  C9, amended: for a component longer than 14 bytes, met while no regular file has
  been found, both walks end with the outcome of \<open>long_component_outcome\<close>: the
  failure of the block read, end of data, the over-long outcome when the block's
  first entry is in use, and the ordinary not-found outcome when it is not.
\<close>

theorem long_component_walk:
  assumes "14 < length p"
  shows "ls_walk e (p # rest) di db buf = Inl (long_component_outcome e di db buf) \<and>
         read_walk e (p # rest) di db buf fi 0 = Inl (long_component_outcome e di db buf)"
  using assms
  by (auto simp: long_component_outcome_def ls_lookup.simps read_lookup.simps long_scans
        split: prod.splits sum.splits)

theorem long_component_walk_witness:
  "14 < length ''a_name_longer_than_14'' \<and>
   ls_walk demo [''a_name_longer_than_14''] root_inode 0 (auto_buf demo 1024) = Inl NameTooLong \<and>
   read_walk demo [''a_name_longer_than_14''] root_inode 0 (auto_buf demo 1024) sh_inode 0
     = Inl NameTooLong \<and>
   ls_walk hollow [''a_name_longer_than_14''] root_inode 0 (auto_buf hollow 1024) = Inl NotFound \<and>
   read_walk hollow [''a_name_longer_than_14''] root_inode 0 (auto_buf hollow 1024) sh_inode 0
     = Inl NotFound"
proof -
  have l: "14 < length ''a_name_longer_than_14''" by simp
  have a: "long_component_outcome demo root_inode 0 (auto_buf demo 1024) = NameTooLong"
    by (simp add: long_component_outcome_def demo_inode_blocks sample_entries)
  have b: "long_component_outcome hollow root_inode 0 (auto_buf hollow 1024) = NotFound"
    by (simp add: long_component_outcome_def hollow_block hollow_entry)
  show ?thesis
    using long_component_walk[OF l, of demo "[]" root_inode 0 "auto_buf demo 1024" sh_inode]
      long_component_walk[OF l, of hollow "[]" root_inode 0 "auto_buf hollow 1024" sh_inode]
    by (simp add: a b)
qed


section \<open>Directory scanning\<close>

text \<open>
  The entries a scan of a directory block visits: the indices from \<open>x\<close> on, in
  order, up to the first entry with inode number 0 or the 64th entry.
\<close>

definition live_from :: "byte list \<Rightarrow> nat \<Rightarrow> nat list" where
  "live_from dir_buffer x = takeWhile (\<lambda>i. entry_inode dir_buffer i \<noteq> 0) [x..<64]"

definition live_entries :: "byte list \<Rightarrow> nat list" where
  "live_entries dir_buffer = live_from dir_buffer 0"

lemma live_from_step:
  "x < 64 \<Longrightarrow> live_from buf x =
     (if entry_inode buf x \<noteq> 0 then x # live_from buf (x + 1) else [])"
  by (simp add: live_from_def upt_conv_Cons)

lemma live_from_end: "\<not> x < 64 \<Longrightarrow> live_from buf x = []"
  by (simp add: live_from_def)

lemma read_inode_no_error:
  fixes n :: u16
  assumes "\<forall>p. \<not> read_error e p"
  shows "\<exists>ino. read_inode e (ucast n) = Inr ino"
proof -
  have "\<not> 1984 + uint n * 64 < 0"
    using uint_nonnegative[of n] by linarith
  then show ?thesis
    using assms by (simp add: read_inode_def sint_inode_offset lseek_set_def sys_read_def Let_def)
qed

lemma ls_entries_run:
  assumes "\<forall>p. \<not> read_error e p"
  shows "\<exists>lines. ls_entries e buf x out = (None, x + length (live_from buf x), out @ lines) \<and>
           map l_name lines = map (entry_str buf) (live_from buf x)"
proof (induction "64 - x" arbitrary: x out rule: less_induct)
  case less
  show ?case
  proof (cases "x < 64 \<and> entry_inode buf x \<noteq> 0")
    case False
    then have "live_from buf x = []"
      by (cases "x < 64") (simp_all add: live_from_step live_from_end)
    moreover have "ls_entries e buf x out = (None, x, out)"
      using False by (subst ls_entries.simps) auto
    ultimately show ?thesis by simp
  next
    case True
    obtain ino where ino: "read_inode e (ucast (swap_hword (entry_inode buf x))) = Inr ino"
      using read_inode_no_error[OF assms] by blast
    let ?l = "print_line ino (entry_str buf x)"
    have step: "ls_entries e buf x out = ls_entries e buf (x + 1) (out @ [?l])"
      using True by (subst ls_entries.simps) (simp add: ino)
    have lf: "live_from buf x = x # live_from buf (x + 1)"
      using True by (simp add: live_from_step)
    from True have "x < 64" by simp
    then have "64 - (x + 1) < 64 - x" by simp
    from less.hyps[OF this, of "out @ [?l]"]
    obtain lines where l: "ls_entries e buf (x + 1) (out @ [?l]) =
          (None, x + 1 + length (live_from buf (x + 1)), (out @ [?l]) @ lines)"
      and m: "map l_name lines = map (entry_str buf) (live_from buf (x + 1))"
      by blast
    show ?thesis
      using step l m lf
      by (intro exI[of _ "?l # lines"]) (simp add: print_line_def)
  qed
qed

lemma length_live_from: "length (live_from buf x) \<le> 64 - x"
  unfolding live_from_def
  by (rule order_trans[OF length_takeWhile_le]) simp

lemma takeWhile_full_length:
  "length (takeWhile P xs) = length xs \<longleftrightarrow> takeWhile P xs = xs"
proof
  assume l: "length (takeWhile P xs) = length xs"
  have "length (takeWhile P xs) + length (dropWhile P xs) = length xs"
    by (metis length_append takeWhile_dropWhile_id)
  with l have "dropWhile P xs = []" by simp
  then show "takeWhile P xs = xs" by (metis append_Nil2 takeWhile_dropWhile_id)
next
  assume "takeWhile P xs = xs"
  then show "length (takeWhile P xs) = length xs" by (rule arg_cong)
qed

lemma live_entries_full:
  "length (live_entries buf) = 64 \<longleftrightarrow> (\<forall>x < 64. entry_inode buf x \<noteq> 0)"
proof -
  have "length (live_entries buf) = 64 \<longleftrightarrow>
        takeWhile (\<lambda>i. entry_inode buf i \<noteq> 0) [0..<64] = [0..<64]"
    unfolding live_entries_def live_from_def
    using takeWhile_full_length[of "\<lambda>i. entry_inode buf i \<noteq> 0" "[0..<64]"] by simp
  also have "\<dots> \<longleftrightarrow> (\<forall>x < 64. entry_inode buf x \<noteq> 0)"
    by auto
  finally show ?thesis .
qed

lemma scans_without_match:
  assumes "length p \<le> 14"
    and "\<forall>i \<in> set (live_from buf x). \<not> strncmp_eq (bytes_of p) (entry_name buf i) 14"
  shows "ls_scan e p buf x = Ended (x + length (live_from buf x)) \<and>
         read_scan e p buf x = Ended (x + length (live_from buf x))"
  using assms(2)
proof (induction "64 - x" arbitrary: x rule: less_induct)
  case less
  show ?case
  proof (cases "x < 64 \<and> entry_inode buf x \<noteq> 0")
    case False
    then have "live_from buf x = []"
      by (cases "x < 64") (simp_all add: live_from_step live_from_end)
    moreover have "ls_scan e p buf x = Ended x"
      using False by (subst ls_scan.simps) auto
    moreover have "read_scan e p buf x = Ended x"
      using False by (subst read_scan.simps) auto
    ultimately show ?thesis by simp
  next
    case True
    then have x: "x < 64" by simp
    have lf: "live_from buf x = x # live_from buf (x + 1)"
      using True by (simp add: live_from_step)
    have nm: "\<not> strncmp_eq (bytes_of p) (entry_name buf x) 14"
      using less.prems lf by simp
    have step: "ls_scan e p buf x = ls_scan e p buf (x + 1)"
      using True nm assms(1) by (subst ls_scan.simps) simp
    have step': "read_scan e p buf x = read_scan e p buf (x + 1)"
      using True nm assms(1) by (subst read_scan.simps) simp
    have "64 - (x + 1) < 64 - x" using x by simp
    from less.hyps[OF this] less.prems lf
    have "ls_scan e p buf (x + 1) = Ended (x + 1 + length (live_from buf (x + 1))) \<and>
          read_scan e p buf (x + 1) = Ended (x + 1 + length (live_from buf (x + 1)))"
      by simp
    then show ?thesis using step step' lf by simp
  qed
qed

lemma ls_print_block:
  assumes "inode_block_read e dirblock dir_inode buf0 = (Inr n, buf, tr)" "0 < n"
    and "ls_entries e buf 0 out = (None, k, out')"
  shows "ls_print e dir_inode dirblock buf0 out =
           (if k < 64 then (Done, out') else ls_print e dir_inode (dirblock + 1) buf out')"
  using assms by (subst ls_print.simps) simp

text \<open>
  Two directory blocks, one with the entry \<open>foo\<close> for inode 5 followed by unused
  slots and one with 64 such entries, each as block 5 of an image whose root inode
  has that block as its only one.
\<close>

definition foo_block :: "byte list" where
  "foo_block = dirent_bytes 5 ''foo'' @ replicate 1008 0"

definition full_block :: "byte list" where
  "full_block = concat (replicate 64 (dirent_bytes 5 ''foo''))"

definition listing_env :: "byte list \<Rightarrow> env" where
  "listing_env block =
     \<lparr> image = replicate 2112 0 @ inode_bytes dir_mode 32 5 @ replicate 2944 0 @ block,
       read_error = (\<lambda>_. False), write_error = (\<lambda>_. False), junk = (\<lambda>_. 0xEE) \<rparr>"

lemma listing_env_block:
  assumes "length block = 1024" "length buf \<le> 1024"
  shows "inode_block_read (listing_env block) 0 root_inode buf = (Inr 1024, block, [5])"
    and "inode_block_read (listing_env block) (Suc 0) root_inode buf = (Inr 0, buf, [])"
  using assms
  by (simp_all add: inode_block_read_direct sample_inode_def final_read_def disk_block_read_def
        lseek_set_def sys_read_def fill_def listing_env_def inode_bytes_def dir_mode_def)

lemma length_concat_replicate: "length (concat (replicate n d)) = n * length d"
  by (induction n) simp_all

lemma length_listing_blocks: "length foo_block = 1024" "length full_block = 1024"
  by (simp_all add: foo_block_def full_block_def dirent_bytes_def bytes_of_def
        length_concat_replicate)

lemma foo_entries:
  "entry_inode foo_block 0 = 0x0500" "entry_inode foo_block (Suc 0) = 0"
  "entry_str foo_block 0 = bytes_of ''foo''"
  "entry_name foo_block 0 = bytes_of ''foo'' @ replicate 11 0"
  by (simp_all add: entry_inode_def entry_str_def entry_name_def hword_at_def le16_def
        foo_block_def dirent_bytes_def bytes_of_def nth_append)

lemma live_foo: "live_entries foo_block = [0]"
  by (simp add: live_entries_def live_from_step foo_entries)

lemma nth_concat_replicate:
  "length d = m \<Longrightarrow> j < m \<Longrightarrow> x < n \<Longrightarrow> concat (replicate n d) ! (m * x + j) = d ! j"
proof (induction n arbitrary: x)
  case 0
  then show ?case by simp
next
  case (Suc n)
  show ?case
  proof (cases x)
    case 0
    then show ?thesis using Suc.prems by (simp add: nth_append)
  next
    case (Suc y)
    then have "m * x + j - m = m * y + j" by simp
    moreover have "\<not> m * x + j < m" using Suc by simp
    ultimately show ?thesis
      using Suc.IH[of y] Suc.prems Suc by (simp add: nth_append)
  qed
qed

lemma full_entries: "x < 64 \<Longrightarrow> entry_inode full_block x = 0x0500"
  using nth_concat_replicate[of "dirent_bytes 5 ''foo''" 16 0 x 64]
    nth_concat_replicate[of "dirent_bytes 5 ''foo''" 16 1 x 64]
  by (simp add: entry_inode_def hword_at_def full_block_def le16_def dirent_bytes_def
        bytes_of_def)

text \<open>
  C5: when no read fails, the listing of a directory block that was read with data
  prints the entries before the first zero-inode entry, at most 64, in order, each
  under its name; with fewer than 64 the listing is done, with all 64 in use (no
  zero inode number in the block) it goes on with the next logical block.  A walk
  scan that finds no match among those entries ends after the same entries.
\<close>

theorem directory_scan:
  assumes "\<forall>p. \<not> read_error e p"
    and "inode_block_read e dirblock dir_inode buf0 = (Inr n, buf, tr)" and "0 < n"
  shows "\<exists>lines. map l_name lines = map (entry_str buf) (live_entries buf) \<and>
           ls_entries e buf 0 out = (None, length (live_entries buf), out @ lines) \<and>
           ls_print e dir_inode dirblock buf0 out =
             (if length (live_entries buf) < 64 then (Done, out @ lines)
              else ls_print e dir_inode (dirblock + 1) buf (out @ lines)) \<and>
           (length (live_entries buf) = 64 \<longleftrightarrow> (\<forall>x < 64. entry_inode buf x \<noteq> 0)) \<and>
           (length pathpart \<le> 14 \<and>
            (\<forall>i \<in> set (live_entries buf).
               \<not> strncmp_eq (bytes_of pathpart) (entry_name buf i) 14) \<longrightarrow>
              ls_scan e pathpart buf 0 = Ended (length (live_entries buf)) \<and>
              read_scan e pathpart buf 0 = Ended (length (live_entries buf)))"
proof -
  from ls_entries_run[OF assms(1), of buf 0 out]
  obtain lines where l: "ls_entries e buf 0 out = (None, length (live_entries buf), out @ lines)"
    and m: "map l_name lines = map (entry_str buf) (live_entries buf)"
    by (auto simp: live_entries_def)
  have p: "ls_print e dir_inode dirblock buf0 out =
             (if length (live_entries buf) < 64 then (Done, out @ lines)
              else ls_print e dir_inode (dirblock + 1) buf (out @ lines))"
    by (rule ls_print_block[OF assms(2,3) l])
  have s: "length pathpart \<le> 14 \<and>
            (\<forall>i \<in> set (live_entries buf).
               \<not> strncmp_eq (bytes_of pathpart) (entry_name buf i) 14) \<longrightarrow>
              ls_scan e pathpart buf 0 = Ended (length (live_entries buf)) \<and>
              read_scan e pathpart buf 0 = Ended (length (live_entries buf))"
    using scans_without_match[of pathpart buf 0 e] by (simp add: live_entries_def)
  show ?thesis
    using l m p s live_entries_full[of buf] by blast
qed

theorem directory_scan_witness:
  "read_error (listing_env foo_block) = (\<lambda>p. False) \<and>
   inode_block_read (listing_env foo_block) 0 root_inode (auto_buf (listing_env foo_block) 1024)
     = (Inr 1024, foo_block, [5]) \<and>
   live_entries foo_block = [0] \<and>
   (\<exists>lines. map l_name lines = [bytes_of ''foo''] \<and>
      ls_print (listing_env foo_block) root_inode 0 (auto_buf (listing_env foo_block) 1024) []
        = (Done, lines)) \<and>
   ls_scan (listing_env foo_block) ''nope'' foo_block 0 = Ended 1 \<and>
   read_scan (listing_env foo_block) ''nope'' foo_block 0 = Ended 1 \<and>
   read_error (listing_env full_block) = (\<lambda>p. False) \<and>
   inode_block_read (listing_env full_block) 0 root_inode (auto_buf (listing_env full_block) 1024)
     = (Inr 1024, full_block, [5]) \<and>
   length (live_entries full_block) = 64 \<and>
   (\<exists>lines. length lines = 64 \<and>
      ls_print (listing_env full_block) root_inode 0 (auto_buf (listing_env full_block) 1024) []
        = ls_print (listing_env full_block) root_inode 1 full_block lines)"
proof -
  let ?e = "listing_env foo_block" and ?f = "listing_env full_block"
  have r: "\<forall>p. \<not> read_error ?e p" "\<forall>p. \<not> read_error ?f p"
    "read_error ?e = (\<lambda>p. False)" "read_error ?f = (\<lambda>p. False)"
    by (simp_all add: listing_env_def)
  have b: "inode_block_read ?e 0 root_inode (auto_buf ?e 1024) = (Inr 1024, foo_block, [5])"
    "inode_block_read ?f 0 root_inode (auto_buf ?f 1024) = (Inr 1024, full_block, [5])"
    by (simp_all add: listing_env_block length_listing_blocks)
  have nm: "length ''nope'' \<le> 14 \<and> (\<forall>i \<in> set (live_entries foo_block).
      \<not> strncmp_eq (bytes_of ''nope'') (entry_name foo_block i) 14)"
    by (simp add: live_foo foo_entries strncmp_eq_def c_str_def bytes_of_def)
  have full: "length (live_entries full_block) = 64"
    using live_entries_full[of full_block] full_entries by simp
  have pos: "0 < (1024 :: nat)" by simp
  from directory_scan[OF r(1) b(1) pos, of "[]" "''nope''"]
  obtain l1 where a1: "map l_name l1 = map (entry_str foo_block) (live_entries foo_block)"
    and p1: "ls_print ?e root_inode 0 (auto_buf ?e 1024) [] =
             (if length (live_entries foo_block) < 64 then (Done, [] @ l1)
              else ls_print ?e root_inode (0 + 1) foo_block ([] @ l1))"
    and s1: "length ''nope'' \<le> 14 \<and> (\<forall>i \<in> set (live_entries foo_block).
               \<not> strncmp_eq (bytes_of ''nope'') (entry_name foo_block i) 14) \<longrightarrow>
              ls_scan ?e ''nope'' foo_block 0 = Ended (length (live_entries foo_block)) \<and>
              read_scan ?e ''nope'' foo_block 0 = Ended (length (live_entries foo_block))"
    by blast
  have l1: "map l_name l1 = [bytes_of ''foo'']"
    "ls_print ?e root_inode 0 (auto_buf ?e 1024) [] = (Done, l1)"
    using a1 p1 by (simp_all add: live_foo foo_entries)
  have sc: "ls_scan ?e ''nope'' foo_block 0 = Ended 1" "read_scan ?e ''nope'' foo_block 0 = Ended 1"
    using s1 nm by (simp_all add: live_foo)
  from directory_scan[OF r(2) b(2) pos, of "[]" "''nope''"]
  obtain l2 where a2: "map l_name l2 = map (entry_str full_block) (live_entries full_block)"
    and p2: "ls_print ?f root_inode 0 (auto_buf ?f 1024) [] =
             (if length (live_entries full_block) < 64 then (Done, [] @ l2)
              else ls_print ?f root_inode (0 + 1) full_block ([] @ l2))"
    by blast
  have l2: "ls_print ?f root_inode 0 (auto_buf ?f 1024) [] = ls_print ?f root_inode 1 full_block l2"
    using p2 by (simp add: full)
  have "length l2 = 64"
    using arg_cong[OF a2, of length] full by simp
  then have e2: "\<exists>lines. length lines = 64 \<and>
      ls_print ?f root_inode 0 (auto_buf ?f 1024) [] = ls_print ?f root_inode 1 full_block lines"
    by (intro exI[of _ l2] conjI l2)
  have e1: "\<exists>lines. map l_name lines = [bytes_of ''foo''] \<and>
      ls_print ?e root_inode 0 (auto_buf ?e 1024) [] = (Done, lines)"
    by (intro exI[of _ l1] conjI l1)
  show ?thesis
    using e1 e2 sc r(3,4) b full live_foo by (intro conjI) assumption+
qed


section \<open>Superblock validation\<close>

text \<open>
  "Bad superblock magic" is returned by \<^verbatim>\<open>main\<close> alone: no walk, listing or copy
  loop ends with it.
\<close>

lemma ls_scan_not_magic: "ls_scan e p b x \<noteq> Return BadMagic"
proof (induction e p b x rule: ls_scan.induct)
  case (1 e pathpart dir_buffer x)
  then show ?case
    by (subst ls_scan.simps) (auto simp: Let_def split: sum.splits)
qed

lemma read_scan_not_magic: "read_scan e p b x \<noteq> Return BadMagic"
proof (induction e p b x rule: read_scan.induct)
  case (1 e pathpart dir_buffer x)
  then show ?case
    by (subst read_scan.simps) (auto simp: Let_def split: sum.splits)
qed

lemma ls_lookup_not_magic: "ls_lookup e p di db buf \<noteq> Inl BadMagic"
proof (induction e p di db buf rule: ls_lookup.induct)
  case (1 e pathpart dir_inode dirblock dir_buffer)
  then show ?case
    using ls_scan_not_magic
    by (subst ls_lookup.simps)
       (auto split: sum.splits prod.splits scan.splits option.splits)
qed

lemma read_lookup_not_magic: "read_lookup e p di db buf fi fn \<noteq> Inl BadMagic"
proof (induction e p di db buf fi fn rule: read_lookup.induct)
  case (1 e pathpart dir_inode dirblock dir_buffer file_inode file_inode_number)
  then show ?case
    using read_scan_not_magic
    by (subst read_lookup.simps)
       (auto simp: Let_def split: sum.splits prod.splits scan.splits option.splits)
qed

lemma ls_walk_not_magic: "ls_walk e ps di db buf \<noteq> Inl BadMagic"
  using ls_lookup_not_magic
  by (induction ps arbitrary: di db buf) (auto split: sum.splits prod.splits)

lemma read_walk_not_magic: "read_walk e ps di db buf fi fn \<noteq> Inl BadMagic"
  using read_lookup_not_magic
  by (induction ps arbitrary: di db buf fi fn) (auto split: sum.splits prod.splits)

lemma ls_entries_not_magic: "fst (ls_entries e b x out) \<noteq> Some BadMagic"
proof (induction e b x out rule: ls_entries.induct)
  case (1 e dir_buffer x out)
  then show ?case
    by (subst ls_entries.simps) (auto split: sum.splits)
qed

lemma ls_print_not_magic: "fst (ls_print e di db buf out) \<noteq> BadMagic"
proof (induction e di db buf out rule: ls_print.induct)
  case (1 e dir_inode dirblock dir_buffer out)
  then show ?case
    using ls_entries_not_magic
    by (subst ls_print.simps)
       (auto split: sum.splits prod.splits option.splits, (metis fst_conv)+)
qed

lemma read_copy_not_magic: "fst (read_copy e fi buf x fb t) \<noteq> BadMagic"
proof (induction e fi buf x fb t rule: read_copy.induct)
  case (1 e file_inode file_buffer x fileblock t)
  then show ?case
    by (subst read_copy.simps)
       (auto simp: Let_def split: sum.splits prod.splits option.splits)
qed

lemma unix_ls_not_magic: "fst (unix_ls e path) \<noteq> BadMagic"
  using ls_walk_not_magic ls_print_not_magic
  by (auto simp: unix_ls_def ls_resolve_def split: sum.splits prod.splits)

lemma unix_read_not_magic: "fst (unix_read e h path filename) \<noteq> BadMagic"
  using read_walk_not_magic read_copy_not_magic
  by (auto simp: unix_read_def read_resolve_def split: sum.splits prod.splits option.splits)
     (metis fst_conv)+

text \<open>
  \<^verbatim>\<open>superblock_buffer\<close> after block 1 of the opened image has been read into it,
  and \<^verbatim>\<open>main\<close> from there on.
\<close>

definition superblock_of :: "byte list \<Rightarrow> byte list" where
  "superblock_of bytes = fill (take 1024 (drop 1024 bytes)) (replicate 1024 0)"

lemma main_after_open:
  assumes "3 \<le> length argv" "\<not> arg_is (argv ! 1) ''help'' 4" "\<not> arg_is (argv ! 1) ''-?'' 2"
    and "open_rdwr h (argv ! 2) = Some bytes" "\<not> read_error e0 1024"
  shows "main e0 h argv =
     (if superblock_magic (superblock_of bytes) \<noteq> 0x207E18FD then (BadMagic, [], h)
      else if arg_is (argv ! 1) ''ls'' 2 then
        (if length argv < 4 then (MissingArgument, [], h)
         else (fst (unix_ls (e0\<lparr>image := bytes\<rparr>) (argv ! 3)),
               snd (unix_ls (e0\<lparr>image := bytes\<rparr>) (argv ! 3)), h))
      else if arg_is (argv ! 1) ''read'' 4 then
        (if length argv < 5 then (MissingArgument, [], h)
         else (fst (unix_read (e0\<lparr>image := bytes\<rparr>) h (argv ! 3) (argv ! 4)), [],
               snd (unix_read (e0\<lparr>image := bytes\<rparr>) h (argv ! 3) (argv ! 4))))
      else (UnknownCommand, [], h))"
proof -
  have d: "disk_block_read (e0\<lparr>image := bytes\<rparr>) 1 (replicate 1024 0) =
        (Inr (length (take 1024 (drop 1024 bytes))), superblock_of bytes)"
    using assms(5)
    by (simp add: disk_block_read_def lseek_set_def sys_read_def superblock_of_def)
  show ?thesis
    using assms(1-4)
    by (simp add: main_def Let_def d split: prod.splits)
qed

text \<open>
  A host holding the image under the name \<open>img\<close> and a ten-byte file \<open>out\<close>.
\<close>

definition image_host :: "byte list \<Rightarrow> host" where
  "image_host bytes =
     \<lparr> files = (\<lambda>name. if name = ''img'' then Some bytes
                         else if name = ''out'' then Some (bytes_of ''0123456789'') else None),
       denied = (\<lambda>_. False) \<rparr>"

lemma sample_args:
  "\<not> arg_is ''ls'' ''help'' 4" "\<not> arg_is ''ls'' ''-?'' 2" "arg_is ''ls'' ''ls'' 2"
  "\<not> arg_is ''read'' ''help'' 4" "\<not> arg_is ''read'' ''-?'' 2" "\<not> arg_is ''read'' ''ls'' 2"
  "arg_is ''read'' ''read'' 4"
  by (simp_all add: arg_is_def strncmp_eq_def c_str_def bytes_of_def)

lemma demo_magic: "superblock_magic (superblock_of demo_image) = 0x207E18FD"
  by (simp add: superblock_magic_def superblock_of_def word_at_def fill_def demo_image_def
        le32_def nth_append)

lemma zero_magic: "superblock_magic (superblock_of (replicate 2048 0)) = 0"
  by (simp add: superblock_magic_def superblock_of_def word_at_def fill_def le32_def)

text \<open>
  C7: once the image is opened and block 1 is read without error, \<^verbatim>\<open>main\<close> ends
  with "Bad superblock magic" exactly when the magic word of that block differs from
  \<open>0x207E18FD\<close>, and then nothing is listed and no host file is touched.  When the
  image holds all of block 1 the magic word is the host's unswapped load of the
  image bytes 2040 to 2043, the packed structure's offset 1016 in block 1.
\<close>

theorem superblock_validation:
  assumes "3 \<le> length argv" "\<not> arg_is (argv ! 1) ''help'' 4" "\<not> arg_is (argv ! 1) ''-?'' 2"
    and "open_rdwr h (argv ! 2) = Some bytes" "\<not> read_error e0 1024"
  shows "(fst (main e0 h argv) = BadMagic \<longleftrightarrow>
            superblock_magic (superblock_of bytes) \<noteq> 0x207E18FD) \<and>
         (superblock_magic (superblock_of bytes) \<noteq> 0x207E18FD \<longrightarrow>
            main e0 h argv = (BadMagic, [], h)) \<and>
         (2048 \<le> length bytes \<longrightarrow>
            superblock_magic (superblock_of bytes) =
              le32 (bytes ! 2040) (bytes ! 2041) (bytes ! 2042) (bytes ! 2043))"
proof (intro conjI impI)
  note m = main_after_open[OF assms]
  show "fst (main e0 h argv) = BadMagic \<longleftrightarrow>
            superblock_magic (superblock_of bytes) \<noteq> 0x207E18FD"
    unfolding m using unix_ls_not_magic unix_read_not_magic by simp
  show "main e0 h argv = (BadMagic, [], h)"
    if "superblock_magic (superblock_of bytes) \<noteq> 0x207E18FD"
    unfolding m using that by simp
  show "superblock_magic (superblock_of bytes) =
              le32 (bytes ! 2040) (bytes ! 2041) (bytes ! 2042) (bytes ! 2043)"
    if "2048 \<le> length bytes"
    using that by (simp add: superblock_magic_def superblock_of_def word_at_def fill_def)
qed

theorem superblock_validation_witness:
  "3 \<le> length [''unixtool'', ''ls'', ''img'', ''/''] \<and>
   \<not> arg_is ''ls'' ''help'' 4 \<and> \<not> arg_is ''ls'' ''-?'' 2 \<and>
   open_rdwr (image_host (replicate 2048 0)) ''img'' = Some (replicate 2048 0) \<and>
   \<not> read_error demo 1024 \<and>
   superblock_magic (superblock_of (replicate 2048 0)) = 0 \<and>
   main demo (image_host (replicate 2048 0)) [''unixtool'', ''ls'', ''img'', ''/'']
     = (BadMagic, [], image_host (replicate 2048 0)) \<and>
   3 \<le> length [''unixtool'', ''read'', ''img'', ''/bin/sh'', ''out''] \<and>
   \<not> arg_is ''read'' ''help'' 4 \<and> \<not> arg_is ''read'' ''-?'' 2 \<and>
   open_rdwr (image_host demo_image) ''img'' = Some demo_image \<and>
   superblock_magic (superblock_of demo_image) = 0x207E18FD \<and>
   fst (main demo (image_host demo_image) [''unixtool'', ''read'', ''img'', ''/bin/sh'', ''out''])
     \<noteq> BadMagic"
proof -
  have l: "3 \<le> length [''unixtool'', ''ls'', ''img'', ''/'']"
    "3 \<le> length [''unixtool'', ''read'', ''img'', ''/bin/sh'', ''out'']"
    by simp_all
  have a: "\<not> arg_is ([''unixtool'', ''ls'', ''img'', ''/''] ! 1) ''help'' 4"
    "\<not> arg_is ([''unixtool'', ''ls'', ''img'', ''/''] ! 1) ''-?'' 2"
    "\<not> arg_is ([''unixtool'', ''read'', ''img'', ''/bin/sh'', ''out''] ! 1) ''help'' 4"
    "\<not> arg_is ([''unixtool'', ''read'', ''img'', ''/bin/sh'', ''out''] ! 1) ''-?'' 2"
    by (simp_all add: sample_args)
  have o: "open_rdwr (image_host (replicate 2048 0)) ([''unixtool'', ''ls'', ''img'', ''/''] ! 2)
             = Some (replicate 2048 0)"
    "open_rdwr (image_host demo_image) ([''unixtool'', ''read'', ''img'', ''/bin/sh'', ''out''] ! 2)
             = Some demo_image"
    by (simp_all add: open_rdwr_def image_host_def)
  have r: "\<not> read_error demo 1024" by (simp add: demo_fields)
  note z = superblock_validation[OF l(1) a(1,2) o(1) r]
  note d = superblock_validation[OF l(2) a(3,4) o(2) r]
  show ?thesis
    using z d o r by (simp add: sample_args zero_magic demo_magic)
qed


end
